theory Spec2Isabelle
  imports Main
begin

section \<open>Text utilities (src/lib/utils.ts)\<close>

text \<open>
  JavaScript strings are modelled as \<^typ>\<open>string\<close>: a list of code units, each below 256
  (the Latin-1 range). The character classes below are the ones the regular expressions
  of the source name.
\<close>

text \<open>The class \<open>[a-z0-9]\<close> of the regular expression in \<open>generateSlug\<close>.\<close>

definition isLowerAlnum :: "char \<Rightarrow> bool" where
  "isLowerAlnum c =
     ((97 \<le> (of_char c :: nat) \<and> (of_char c :: nat) \<le> 122) \<or>
      (48 \<le> (of_char c :: nat) \<and> (of_char c :: nat) \<le> 57))"

text \<open>
  \<open>String.prototype.toLowerCase\<close> on one code unit below 256: \<open>A-Z\<close> and the
  upper-case letters of Latin-1 (\<open>0xC0-0xDE\<close> without the multiplication sign \<open>0xD7\<close>)
  move up by 32, every other code unit stays.
\<close>

definition lowerChar :: "char \<Rightarrow> char" where
  "lowerChar c =
     (let n = (of_char c :: nat) in
      if (65 \<le> n \<and> n \<le> 90) \<or> (192 \<le> n \<and> n \<le> 214) \<or> (216 \<le> n \<and> n \<le> 222)
      then char_of (n + 32) else c)"

definition toLowerCase :: "string \<Rightarrow> string" where
  "toLowerCase text = map lowerChar text"

text \<open>
  White space and line terminators of ECMAScript below 256: tab, line feed, vertical tab,
  form feed, carriage return, space and the no-break space.
\<close>

definition isWhiteSpace :: "char \<Rightarrow> bool" where
  "isWhiteSpace c =
     (let n = (of_char c :: nat) in (9 \<le> n \<and> n \<le> 13) \<or> n = 32 \<or> n = 160)"

definition trim :: "string \<Rightarrow> string" where
  "trim text = rev (dropWhile isWhiteSpace (rev (dropWhile isWhiteSpace text)))"

text \<open>
  \<open>.replace(/[^a-z0-9]+/g, "-")\<close>: scanning from the left, every maximal run of code
  units outside \<open>[a-z0-9]\<close> is replaced by one hyphen.
\<close>

function replaceNonAlnumRuns :: "string \<Rightarrow> string" where
  "replaceNonAlnumRuns [] = []"
| "replaceNonAlnumRuns (c # cs) =
     (if isLowerAlnum c then c # replaceNonAlnumRuns cs
      else CHR ''-'' # replaceNonAlnumRuns (dropWhile (\<lambda>x. \<not> isLowerAlnum x) cs))"
  by pat_completeness auto
termination
  by (relation "measure length") (auto simp: length_dropWhile_le less_Suc_eq_le)

text \<open>
  \<open>.replace(/(^-|-$)/g, "")\<close>: the first alternative matches a hyphen at index 0, the
  second a hyphen at the last index (when the scan has not consumed it already); at most
  one hyphen goes at each end.
\<close>

definition stripEdgeHyphens :: "string \<Rightarrow> string" where
  "stripEdgeHyphens s =
     (let s1 = (case s of [] \<Rightarrow> [] | c # cs \<Rightarrow> if c = CHR ''-'' then cs else s)
      in if s1 \<noteq> [] \<and> last s1 = CHR ''-'' then butlast s1 else s1)"

definition generateSlug :: "string \<Rightarrow> string" where
  "generateSlug text = stripEdgeHyphens (replaceNonAlnumRuns (trim (toLowerCase text)))"

text \<open>The class \<open>[a-z0-9-]\<close> of the regular expression in \<open>isValidSlug\<close>.\<close>

definition isSlugChar :: "char \<Rightarrow> bool" where
  "isSlugChar c = (isLowerAlnum c \<or> c = CHR ''-'')"

definition startsWith :: "string \<Rightarrow> string \<Rightarrow> bool" where
  "startsWith s p = (take (length p) s = p)"

definition endsWith :: "string \<Rightarrow> string \<Rightarrow> bool" where
  "endsWith s p = (length p \<le> length s \<and> drop (length s - length p) s = p)"

text \<open>
  \<open>isValidSlug\<close>: \<open>String(slug || "")\<close> is the string itself, \<open>/^[a-z0-9-]+$/.test(s)\<close>
  asks for a non-empty string of slug characters.
\<close>

definition isValidSlug :: "string \<Rightarrow> bool" where
  "isValidSlug slug =
     (let s = slug in
      (s \<noteq> [] \<and> list_all isSlugChar s) \<and> \<not> startsWith s ''-'' \<and> \<not> endsWith s ''-'')"

text \<open>
  The slug as the specification words it: the maximal runs of characters of \<open>[a-z0-9]\<close>
  of the lower-cased text, joined by single hyphens. These two functions follow the
  specification's sentence, not the source; \<open>generateSlug\<close> above is the source.
\<close>

function alnumRuns :: "string \<Rightarrow> string list" where
  "alnumRuns [] = []"
| "alnumRuns (c # cs) =
     (if isLowerAlnum c
      then (c # takeWhile isLowerAlnum cs) # alnumRuns (dropWhile isLowerAlnum cs)
      else alnumRuns cs)"
  by pat_completeness auto
termination
  by (relation "measure length") (auto simp: length_dropWhile_le less_Suc_eq_le)

fun joinHyphen :: "string list \<Rightarrow> string" where
  "joinHyphen [] = []"
| "joinHyphen [w] = w"
| "joinHyphen (w # v # ws) = w @ CHR ''-'' # joinHyphen (v # ws)"

section \<open>Data model (the database schema and src/types/index.ts)\<close>

text \<open>
  A JavaScript \<open>Date\<close> is its time value (milliseconds since the epoch); identifiers,
  counters and the other \<open>number\<close>s the schema declares \<open>integer\<close> or \<open>serial\<close> are
  integers. A nullable column is an \<open>option\<close>.
\<close>

type_synonym date = int

text \<open>Table \<open>users\<close>.\<close>

record user =
  u_id :: int
  u_username :: string
  u_email :: string
  u_firstName :: "string option"
  u_lastName :: "string option"
  u_bio :: "string option"
  u_avatar :: "string option"
  u_isActive :: bool
  u_emailVerified :: bool
  u_createdAt :: date
  u_updatedAt :: date

text \<open>Table \<open>posts\<close> (type \<open>Post\<close>).\<close>

record post =
  p_id :: int
  p_title :: string
  p_content :: "string option"
  p_excerpt :: "string option"
  p_authorId :: int
  p_slug :: string
  p_published :: bool
  p_featured :: bool
  p_viewCount :: int
  p_readingTime :: "int option"
  p_seoTitle :: "string option"
  p_seoDescription :: "string option"
  p_publishedAt :: "date option"
  p_createdAt :: date
  p_updatedAt :: date

text \<open>Table \<open>categories\<close> (type \<open>Category\<close>).\<close>

record category =
  c_id :: int
  c_name :: string
  c_description :: "string option"
  c_slug :: string
  c_parentId :: "int option"
  c_color :: "string option"
  c_icon :: "string option"
  c_isActive :: bool
  c_sortOrder :: int
  c_postCount :: int
  c_createdAt :: date
  c_updatedAt :: date

text \<open>Table \<open>post_categories\<close>, the junction (type \<open>PostCategory\<close>).\<close>

record post_category =
  pc_id :: int
  pc_postId :: int
  pc_categoryId :: int
  pc_createdAt :: date

text \<open>
  \<open>RawPostQueryResult\<close>: one row of the join, the post's columns and the joined category
  (\<open>null\<close> when the post has none).
\<close>

record raw_post_query_result =
  r_id :: int
  r_title :: string
  r_content :: "string option"
  r_excerpt :: "string option"
  r_slug :: string
  r_published :: bool
  r_featured :: bool
  r_viewCount :: int
  r_readingTime :: "int option"
  r_seoTitle :: "string option"
  r_seoDescription :: "string option"
  r_publishedAt :: "date option"
  r_createdAt :: date
  r_updatedAt :: date
  r_authorId :: "int option"
  r_categories :: "category option"

text \<open>\<open>PostWithCategories\<close>: the fields \<open>transformPostQueryResults\<close> sets.\<close>

record post_with_categories =
  w_id :: int
  w_title :: string
  w_content :: "string option"
  w_excerpt :: "string option"
  w_slug :: string
  w_published :: bool
  w_featured :: bool
  w_viewCount :: int
  w_readingTime :: "int option"
  w_seoTitle :: "string option"
  w_seoDescription :: "string option"
  w_publishedAt :: "date option"
  w_createdAt :: date
  w_updatedAt :: date
  w_authorId :: "int option"
  w_categories :: "category list"

subsection \<open>The JavaScript \<open>Map\<close>\<close>

text \<open>
  A \<open>Map\<close> iterates in insertion order of its keys: an association list with distinct
  keys. \<open>set\<close> on a new key appends the entry, \<open>set\<close> on a key of the map replaces the
  value where it stands.
\<close>

type_synonym ('k, 'v) js_map = "('k \<times> 'v) list"

definition map_has :: "('k, 'v) js_map \<Rightarrow> 'k \<Rightarrow> bool" where
  "map_has m k = (map_of m k \<noteq> None)"

definition map_get :: "('k, 'v) js_map \<Rightarrow> 'k \<Rightarrow> 'v option" where
  "map_get m k = map_of m k"

fun map_set :: "('k, 'v) js_map \<Rightarrow> 'k \<Rightarrow> 'v \<Rightarrow> ('k, 'v) js_map" where
  "map_set [] k v = [(k, v)]"
| "map_set ((k', v') # m) k v = (if k' = k then (k, v) # m else (k', v') # map_set m k v)"

definition map_values :: "('k, 'v) js_map \<Rightarrow> 'v list" where
  "map_values m = map snd m"

subsection \<open>The result shape-transformer of the post router\<close>

text \<open>
  \<open>transformPostQueryResults\<close> (src/server/api/routers/post.ts, and the same text in the
  second copy of the router). The body of the \<open>forEach\<close> callback is \<open>transformStep\<close>:
  \<open>post.categories.push(categories)\<close> changes the object the map holds, which is a
  \<open>set\<close> of the changed record on its key.
\<close>

text \<open>The object literal stored for a post identifier seen for the first time.\<close>

definition newPostRecord :: "raw_post_query_result \<Rightarrow> post_with_categories" where
  "newPostRecord postData =
     \<lparr> w_id = r_id postData,
       w_title = r_title postData,
       w_content = r_content postData,
       w_excerpt = r_excerpt postData,
       w_slug = r_slug postData,
       w_published = r_published postData,
       w_featured = r_featured postData,
       w_viewCount = r_viewCount postData,
       w_readingTime = r_readingTime postData,
       w_seoTitle = r_seoTitle postData,
       w_seoDescription = r_seoDescription postData,
       w_publishedAt = r_publishedAt postData,
       w_createdAt = r_createdAt postData,
       w_updatedAt = r_updatedAt postData,
       w_authorId = r_authorId postData,
       w_categories = [] \<rparr>"

definition transformStep ::
  "(int, post_with_categories) js_map \<Rightarrow> raw_post_query_result \<Rightarrow> (int, post_with_categories) js_map"
where
  "transformStep postsMap result =
     (let postsMap1 =
        (if \<not> map_has postsMap (r_id result)
         then map_set postsMap (r_id result) (newPostRecord result)
         else postsMap)
      in case r_categories result of
           None \<Rightarrow> postsMap1
         | Some cat \<Rightarrow>
             (case map_get postsMap1 (r_id result) of
                None \<Rightarrow> postsMap1
              | Some post \<Rightarrow>
                  map_set postsMap1 (r_id result)
                    (post\<lparr> w_categories := w_categories post @ [cat] \<rparr>)))"

definition transformPostQueryResults :: "raw_post_query_result list \<Rightarrow> post_with_categories list" where
  "transformPostQueryResults results = map_values (foldl transformStep [] results)"

text \<open>
  What the specification says of the transformer, in its words: the distinct post
  identifiers in order of first appearance, and for one identifier the categories its rows
  carry, in row order (with repetitions, as the rows have them).
\<close>

definition distinctInOrder :: "'a list \<Rightarrow> 'a list" where
  "distinctInOrder xs = rev (remdups (rev xs))"

definition rowsOf :: "int \<Rightarrow> raw_post_query_result list \<Rightarrow> raw_post_query_result list" where
  "rowsOf k results = filter (\<lambda>r. r_id r = k) results"

definition pushCategory :: "post_with_categories \<Rightarrow> category option \<Rightarrow> post_with_categories" where
  "pushCategory p co = (case co of None \<Rightarrow> p | Some c \<Rightarrow> p\<lparr> w_categories := w_categories p @ [c] \<rparr>)"

definition categoriesOf :: "int \<Rightarrow> raw_post_query_result list \<Rightarrow> category list" where
  "categoriesOf k results = List.map_filter r_categories (rowsOf k results)"

section \<open>The relational store (the schema, reached through the query builder)\<close>

text \<open>
  The store is the four tables the post and category routers touch, each a list of rows
  in insertion order, and the sequence behind each \<open>serial\<close> primary key (its last value).
  Rows get their identifiers from the sequence only, so a primary key is never supplied by
  a caller; the sequences are taken to have values left. A statement that fails raises the
  PostgreSQL error with its SQLSTATE and changes no table; each statement commits on its
  own (the routers open no transaction). A statement goes through these stages:

  \<^item> its parameters are converted, in the order of the statement's text: a string with
    the character 0 is no text (22021), a number outside the type of its column is out of
    range (22003);

  \<^item> a value for a \<open>varchar(n)\<close> column is cut to \<open>n\<close> characters when all the characters
    beyond are spaces, and is too long otherwise (22001); this happens before a sequence
    is read;

  \<^item> each row takes the next value of the sequence and is checked against the check
    constraints (23514) and the unique indexes (23505);

  \<^item> the foreign keys are checked when all rows are in (23503).
\<close>

datatype pg_error = PgError string

record db =
  users :: "user list"
  posts :: "post list"
  categories :: "category list"
  postCategories :: "post_category list"
  users_id_seq :: int
  posts_id_seq :: int
  categories_id_seq :: int
  post_categories_id_seq :: int

subsection \<open>Parameters\<close>

text \<open>The first error of the conversions, in their order.\<close>

fun firstError :: "pg_error option list \<Rightarrow> pg_error option" where
  "firstError [] = None"
| "firstError (None # es) = firstError es"
| "firstError (Some e # es) = Some e"

definition textParam :: "string \<Rightarrow> pg_error option" where
  "textParam s = (if CHR 0x00 \<in> set s then Some (PgError ''22021'') else None)"

definition textParamOpt :: "string option \<Rightarrow> pg_error option" where
  "textParamOpt so = (case so of None \<Rightarrow> None | Some s \<Rightarrow> textParam s)"

text \<open>The ranges of \<open>integer\<close> and \<open>bigint\<close>.\<close>

definition int4 :: "int \<Rightarrow> bool" where
  "int4 i = (- 2147483648 \<le> i \<and> i \<le> 2147483647)"

definition int8 :: "int \<Rightarrow> bool" where
  "int8 i = (- 9223372036854775808 \<le> i \<and> i \<le> 9223372036854775807)"

text \<open>
  A number reaches the engine as the text JavaScript gives it: digits below \<open>10^21\<close>
  (out of range for the column, 22003), with an exponent from there on (no integer
  syntax, 22P02).
\<close>

definition integerError :: "int \<Rightarrow> pg_error" where
  "integerError i = PgError (if \<bar>i\<bar> < 10 ^ 21 then ''22003'' else ''22P02'')"

definition int4Param :: "int \<Rightarrow> pg_error option" where
  "int4Param i = (if int4 i then None else Some (integerError i))"

definition int8Param :: "int \<Rightarrow> pg_error option" where
  "int8Param i = (if int8 i then None else Some (integerError i))"

text \<open>A value assigned to a \<open>varchar(n)\<close> column: when it is too long, and what is stored.\<close>

definition varcharTooLong :: "nat \<Rightarrow> string \<Rightarrow> bool" where
  "varcharTooLong n s = list_ex (\<lambda>c. c \<noteq> CHR '' '') (drop n s)"

definition varcharTooLongOpt :: "nat \<Rightarrow> string option \<Rightarrow> bool" where
  "varcharTooLongOpt n so = (case so of None \<Rightarrow> False | Some s \<Rightarrow> varcharTooLong n s)"

definition varchar :: "nat \<Rightarrow> string \<Rightarrow> string" where
  "varchar n s = take n s"

subsection \<open>Table \<open>posts\<close>: constraints and statements\<close>

text \<open>
  The check constraints \<open>title_min_length\<close>, \<open>slug_min_length\<close>,
  \<open>view_count_non_negative\<close> and \<open>reading_time_positive\<close> (SQLSTATE 23514); a check on
  a null value passes.
\<close>

definition posts_check_violated :: "post \<Rightarrow> bool" where
  "posts_check_violated row =
     (length (p_title row) < 5 \<or> length (p_slug row) < 3 \<or> p_viewCount row < 0 \<or>
      (case p_readingTime row of None \<Rightarrow> False | Some n \<Rightarrow> n \<le> 0))"

text \<open>The unique index \<open>posts_slug_idx\<close> (SQLSTATE 23505), against the other rows.\<close>

definition posts_unique_violated :: "post list \<Rightarrow> post \<Rightarrow> bool" where
  "posts_unique_violated others row = (p_slug row \<in> set (map p_slug others))"

text \<open>The foreign key \<open>posts_author_fk\<close> (SQLSTATE 23503).\<close>

definition posts_fk_violated :: "db \<Rightarrow> post \<Rightarrow> bool" where
  "posts_fk_violated s row = (p_authorId row \<notin> set (map u_id (users s)))"

text \<open>
  \<open>db.insert(posts).values({title, content, slug, published, authorId}).returning()\<close>:
  the other columns take their defaults. The parameters stand in the order of the
  columns of the table. The sequence advances once the row is formed, whether or not the
  row is stored.
\<close>

definition insert_posts ::
  "date \<Rightarrow> string \<Rightarrow> string \<Rightarrow> string \<Rightarrow> bool \<Rightarrow> int \<Rightarrow> db \<Rightarrow> (pg_error + post list) \<times> db"
where
  "insert_posts now title content slug published authorId s =
     (case firstError [textParam title, textParam content, int4Param authorId, textParam slug] of
        Some e \<Rightarrow> (Inl e, s)
      | None \<Rightarrow>
          if varcharTooLong 200 title \<or> varcharTooLong 250 slug then (Inl (PgError ''22001''), s)
          else
            (let s1 = s\<lparr> posts_id_seq := posts_id_seq s + 1 \<rparr>;
                 row = \<lparr> p_id = posts_id_seq s + 1,
                         p_title = varchar 200 title,
                         p_content = Some content,
                         p_excerpt = None,
                         p_authorId = authorId,
                         p_slug = varchar 250 slug,
                         p_published = published,
                         p_featured = False,
                         p_viewCount = 0,
                         p_readingTime = Some 1,
                         p_seoTitle = None,
                         p_seoDescription = None,
                         p_publishedAt = None,
                         p_createdAt = now,
                         p_updatedAt = now \<rparr>
             in if posts_check_violated row then (Inl (PgError ''23514''), s1)
                else if posts_unique_violated (posts s) row then (Inl (PgError ''23505''), s1)
                else if posts_fk_violated s row then (Inl (PgError ''23503''), s1)
                else (Inr [row], s1\<lparr> posts := posts s @ [row] \<rparr>)))"

text \<open>
  The object passed to \<open>.set(...)\<close> by the update of a post: the query builder skips a
  key whose value is \<open>undefined\<close>.
\<close>

record post_set =
  set_title :: "string option"
  set_content :: "string option"
  set_published :: "bool option"
  set_slug :: "string option"
  set_updatedAt :: date

definition apply_post_set :: "post_set \<Rightarrow> post \<Rightarrow> post" where
  "apply_post_set v row =
     row\<lparr> p_title := (case set_title v of None \<Rightarrow> p_title row | Some t \<Rightarrow> varchar 200 t),
          p_content := (case set_content v of None \<Rightarrow> p_content row | Some c \<Rightarrow> Some c),
          p_published := (case set_published v of None \<Rightarrow> p_published row | Some b \<Rightarrow> b),
          p_slug := (case set_slug v of None \<Rightarrow> p_slug row | Some g \<Rightarrow> varchar 250 g),
          p_updatedAt := set_updatedAt v \<rparr>"

text \<open>
  \<open>db.update(posts).set(v).where(eq(posts.id, id)).returning()\<close>. The assigned columns
  stand in the order of the table, the identifier comes last. The parameters and the
  lengths are looked at whether or not a row has the identifier. The author column is not
  assigned, so its foreign key is not checked again.
\<close>

definition update_posts :: "post_set \<Rightarrow> int \<Rightarrow> db \<Rightarrow> (pg_error + post list) \<times> db" where
  "update_posts v i s =
     (case firstError [textParamOpt (set_title v), textParamOpt (set_content v),
                       textParamOpt (set_slug v), int4Param i] of
        Some e \<Rightarrow> (Inl e, s)
      | None \<Rightarrow>
          if varcharTooLongOpt 200 (set_title v) \<or> varcharTooLongOpt 250 (set_slug v)
          then (Inl (PgError ''22001''), s)
          else
            (let others = filter (\<lambda>p. p_id p \<noteq> i) (posts s);
                 changed = map (apply_post_set v) (filter (\<lambda>p. p_id p = i) (posts s))
             in if list_ex posts_check_violated changed then (Inl (PgError ''23514''), s)
                else if list_ex (posts_unique_violated others) changed then (Inl (PgError ''23505''), s)
                else (Inr changed,
                      s\<lparr> posts := map (\<lambda>p. if p_id p = i then apply_post_set v p else p) (posts s) \<rparr>)))"

text \<open>
  \<open>db.delete(posts).where(eq(posts.id, id)).returning()\<close>: the junction rows of a
  deleted post go with it (\<open>post_categories_post_fk\<close>, on delete cascade).
\<close>

definition delete_posts :: "int \<Rightarrow> db \<Rightarrow> (pg_error + post list) \<times> db" where
  "delete_posts i s =
     (case int4Param i of
        Some e \<Rightarrow> (Inl e, s)
      | None \<Rightarrow>
          (let deleted = filter (\<lambda>p. p_id p = i) (posts s)
           in (Inr deleted,
               s\<lparr> posts := filter (\<lambda>p. p_id p \<noteq> i) (posts s),
                  postCategories :=
                    filter (\<lambda>j. pc_postId j \<notin> set (map p_id deleted)) (postCategories s) \<rparr>)))"

subsection \<open>Table \<open>post_categories\<close>\<close>

text \<open>
  The rows of a multi-row insert are stored one after the other: each takes the next
  value of the sequence and is checked against the unique index
  \<open>post_categories_unique_idx\<close> on (post, category); the first violation ends the
  statement.
\<close>

fun number_postCategories ::
  "date \<Rightarrow> (int \<times> int) list \<Rightarrow> int \<Rightarrow> (int \<times> int) list \<Rightarrow> (pg_error + post_category list) \<times> int"
where
  "number_postCategories now [] sq present = (Inr [], sq)"
| "number_postCategories now ((p, c) # vs) sq present =
     (if (p, c) \<in> set present then (Inl (PgError ''23505''), sq + 1)
      else (case number_postCategories now vs (sq + 1) ((p, c) # present) of
              (Inl e, sq') \<Rightarrow> (Inl e, sq')
            | (Inr rows, sq') \<Rightarrow>
                (Inr (\<lparr> pc_id = sq + 1, pc_postId = p, pc_categoryId = c, pc_createdAt = now \<rparr> # rows),
                 sq')))"

definition pairOf :: "post_category \<Rightarrow> int \<times> int" where
  "pairOf j = (pc_postId j, pc_categoryId j)"

text \<open>The parameters of the rows: post and category of the first row, of the second, ...\<close>

definition junctionParams :: "(int \<times> int) list \<Rightarrow> pg_error option list" where
  "junctionParams vs = concat (map (\<lambda>(p, c). [int4Param p, int4Param c]) vs)"

text \<open>
  \<open>db.insert(postCategories).values([...])\<close>: the foreign keys to \<open>posts\<close> and
  \<open>categories\<close> are checked when all rows are in.
\<close>

definition insert_postCategories ::
  "date \<Rightarrow> (int \<times> int) list \<Rightarrow> db \<Rightarrow> (pg_error + post_category list) \<times> db"
where
  "insert_postCategories now vs s =
     (case firstError (junctionParams vs) of
        Some e \<Rightarrow> (Inl e, s)
      | None \<Rightarrow>
          (case number_postCategories now vs (post_categories_id_seq s) (map pairOf (postCategories s)) of
             (Inl e, sq) \<Rightarrow> (Inl e, s\<lparr> post_categories_id_seq := sq \<rparr>)
           | (Inr rows, sq) \<Rightarrow>
               if list_ex (\<lambda>(p, c). p \<notin> set (map p_id (posts s)) \<or> c \<notin> set (map c_id (categories s))) vs
               then (Inl (PgError ''23503''), s\<lparr> post_categories_id_seq := sq \<rparr>)
               else (Inr rows,
                     s\<lparr> post_categories_id_seq := sq, postCategories := postCategories s @ rows \<rparr>)))"

text \<open>\<open>db.delete(postCategories).where(eq(postCategories.postId, id))\<close>.\<close>

definition delete_postCategories :: "int \<Rightarrow> db \<Rightarrow> (pg_error + unit) \<times> db" where
  "delete_postCategories i s =
     (case int4Param i of
        Some e \<Rightarrow> (Inl e, s)
      | None \<Rightarrow> (Inr (), s\<lparr> postCategories := filter (\<lambda>j. pc_postId j \<noteq> i) (postCategories s) \<rparr>))"

subsection \<open>Table \<open>categories\<close>\<close>

definition isHexDigit :: "char \<Rightarrow> bool" where
  "isHexDigit c =
     (let n = (of_char c :: nat)
      in (48 \<le> n \<and> n \<le> 57) \<or> (65 \<le> n \<and> n \<le> 70) \<or> (97 \<le> n \<and> n \<le> 102))"

text \<open>The check \<open>color_hex_format\<close>: \<open>^#[0-9A-Fa-f]{6}$\<close>.\<close>

definition hexColor :: "string \<Rightarrow> bool" where
  "hexColor s = (case s of [] \<Rightarrow> False | c # cs \<Rightarrow> c = CHR ''#'' \<and> length cs = 6 \<and> list_all isHexDigit cs)"

definition categories_check_violated :: "category \<Rightarrow> bool" where
  "categories_check_violated row =
     (length (c_name row) < 2 \<or> length (c_slug row) < 2 \<or>
      (case c_color row of None \<Rightarrow> False | Some col \<Rightarrow> \<not> hexColor col) \<or> c_postCount row < 0)"

definition categories_unique_violated :: "category list \<Rightarrow> category \<Rightarrow> bool" where
  "categories_unique_violated others row =
     (c_name row \<in> set (map c_name others) \<or> c_slug row \<in> set (map c_slug others))"

text \<open>\<open>db.insert(categories).values({name, description, slug}).returning()\<close>.\<close>

definition insert_categories ::
  "date \<Rightarrow> string \<Rightarrow> string option \<Rightarrow> string \<Rightarrow> db \<Rightarrow> (pg_error + category list) \<times> db"
where
  "insert_categories now name description slug s =
     (case firstError [textParam name, textParamOpt description, textParam slug] of
        Some e \<Rightarrow> (Inl e, s)
      | None \<Rightarrow>
          if varcharTooLong 100 name \<or> varcharTooLong 120 slug then (Inl (PgError ''22001''), s)
          else
            (let s1 = s\<lparr> categories_id_seq := categories_id_seq s + 1 \<rparr>;
                 row = \<lparr> c_id = categories_id_seq s + 1,
                         c_name = varchar 100 name,
                         c_description = description,
                         c_slug = varchar 120 slug,
                         c_parentId = None,
                         c_color = None,
                         c_icon = None,
                         c_isActive = True,
                         c_sortOrder = 0,
                         c_postCount = 0,
                         c_createdAt = now,
                         c_updatedAt = now \<rparr>
             in if categories_check_violated row then (Inl (PgError ''23514''), s1)
                else if categories_unique_violated (categories s) row then (Inl (PgError ''23505''), s1)
                else (Inr [row], s1\<lparr> categories := categories s @ [row] \<rparr>)))"

subsection \<open>Table \<open>users\<close>\<close>

definition isAsciiAlnum :: "char \<Rightarrow> bool" where
  "isAsciiAlnum c =
     (let n = (of_char c :: nat)
      in (48 \<le> n \<and> n \<le> 57) \<or> (65 \<le> n \<and> n \<le> 90) \<or> (97 \<le> n \<and> n \<le> 122))"

definition isAsciiLetter :: "char \<Rightarrow> bool" where
  "isAsciiLetter c =
     (let n = (of_char c :: nat) in (65 \<le> n \<and> n \<le> 90) \<or> (97 \<le> n \<and> n \<le> 122))"

text \<open>
  The check \<open>email_format\<close>. The schema writes the pattern in a template literal, which
  drops the backslash before the dot, so the pattern the engine has is
  \<open>^[A-Za-z0-9._%+-]+@[A-Za-z0-9.-]+.[A-Z|a-z]{2,}$\<close>, where the dot stands for any one
  character. The first class excludes the \<open>@\<close>, so the address splits at its first \<open>@\<close>;
  what follows is cut into a front of the second class, one character and an end of two
  or more characters of the last class.
\<close>

definition emailDomain :: "string \<Rightarrow> bool" where
  "emailDomain d =
     list_ex (\<lambda>k. let front = take (length d - k - 1) d; ending = drop (length d - k) d
                  in front \<noteq> [] \<and> list_all (\<lambda>c. isAsciiAlnum c \<or> c \<in> set ''.-'') front \<and>
                     list_all (\<lambda>c. isAsciiLetter c \<or> c = CHR ''|'') ending)
       [2 ..< length d - 1]"

definition email_format :: "string \<Rightarrow> bool" where
  "email_format e =
     (let localPart = takeWhile (\<lambda>c. c \<noteq> CHR ''@'') e;
          rest = dropWhile (\<lambda>c. c \<noteq> CHR ''@'') e
      in case rest of
           [] \<Rightarrow> False
         | _ # domain \<Rightarrow>
             localPart \<noteq> [] \<and>
             list_all (\<lambda>c. isAsciiAlnum c \<or> c \<in> set ''._%+-'') localPart \<and>
             emailDomain domain)"

definition users_check_violated :: "user \<Rightarrow> bool" where
  "users_check_violated row = (length (u_username row) < 3 \<or> \<not> email_format (u_email row))"

definition users_unique_violated :: "user list \<Rightarrow> user \<Rightarrow> bool" where
  "users_unique_violated others row =
     (u_username row \<in> set (map u_username others) \<or> u_email row \<in> set (map u_email others))"

text \<open>\<open>db.insert(users).values({username, email}).returning()\<close>.\<close>

definition insert_users :: "date \<Rightarrow> string \<Rightarrow> string \<Rightarrow> db \<Rightarrow> (pg_error + user list) \<times> db" where
  "insert_users now username email s =
     (case firstError [textParam username, textParam email] of
        Some e \<Rightarrow> (Inl e, s)
      | None \<Rightarrow>
          if varcharTooLong 50 username \<or> varcharTooLong 320 email then (Inl (PgError ''22001''), s)
          else
            (let s1 = s\<lparr> users_id_seq := users_id_seq s + 1 \<rparr>;
                 row = \<lparr> u_id = users_id_seq s + 1,
                         u_username = varchar 50 username,
                         u_email = varchar 320 email,
                         u_firstName = None,
                         u_lastName = None,
                         u_bio = None,
                         u_avatar = None,
                         u_isActive = True,
                         u_emailVerified = False,
                         u_createdAt = now,
                         u_updatedAt = now \<rparr>
             in if users_check_violated row then (Inl (PgError ''23514''), s1)
                else if users_unique_violated (users s) row then (Inl (PgError ''23505''), s1)
                else (Inr [row], s1\<lparr> users := users s @ [row] \<rparr>)))"

subsection \<open>The join of the read queries\<close>

text \<open>
  \<open>.from(posts).leftJoin(postCategories, eq(posts.id, postCategories.postId))
  .leftJoin(categories, eq(postCategories.categoryId, categories.id))\<close>: one row per post
  and junction row of it, with the category the junction row names; a post without
  junction rows gives one row with nulls. The engine leaves the order of the rows of a
  join open; the model takes the order of the tables.
\<close>

type_synonym joined_row = "post \<times> post_category option \<times> category option"

definition joinCategory :: "db \<Rightarrow> post \<Rightarrow> post_category \<Rightarrow> joined_row list" where
  "joinCategory s p j =
     (case filter (\<lambda>c. c_id c = pc_categoryId j) (categories s) of
        [] \<Rightarrow> [(p, Some j, None)]
      | cs \<Rightarrow> map (\<lambda>c. (p, Some j, Some c)) cs)"

definition joinPost :: "db \<Rightarrow> post \<Rightarrow> joined_row list" where
  "joinPost s p =
     (case filter (\<lambda>j. pc_postId j = p_id p) (postCategories s) of
        [] \<Rightarrow> [(p, None, None)]
      | js \<Rightarrow> concat (map (joinCategory s p) js))"

definition joinedRows :: "db \<Rightarrow> joined_row list" where
  "joinedRows s = concat (map (joinPost s) (posts s))"

text \<open>
  SQL \<open>LIKE\<close> with the default escape character: \<open>%\<close> matches any sequence, \<open>_\<close> any
  one character, a backslash takes the next pattern character literally. (A pattern that
  ends in a backslash with nothing to take is an error of the engine; the patterns of the
  routers end in \<open>%\<close>.)
\<close>

fun like_match :: "string \<Rightarrow> string \<Rightarrow> bool" where
  "like_match s [] = (s = [])"
| "like_match s (c # pat) =
     (if c = CHR ''%'' then
        (like_match s pat \<or> (case s of [] \<Rightarrow> False | _ # s' \<Rightarrow> like_match s' (c # pat)))
      else if c = CHR ''_'' then
        (case s of [] \<Rightarrow> False | _ # s' \<Rightarrow> like_match s' pat)
      else if c = CHR 0x5C then
        (case pat of
           [] \<Rightarrow> False
         | e # pat' \<Rightarrow> (case s of [] \<Rightarrow> False | x # s' \<Rightarrow> x = e \<and> like_match s' pat'))
      else (case s of [] \<Rightarrow> False | x # s' \<Rightarrow> x = c \<and> like_match s' pat))"

text \<open>\<open>ILIKE\<close>: \<open>LIKE\<close> without regard to the case of the letters.\<close>

definition ilike_match :: "string \<Rightarrow> string \<Rightarrow> bool" where
  "ilike_match s pat = like_match (toLowerCase s) (toLowerCase pat)"

text \<open>
  The predicates the post router and the query helper build, with \<open>and(...)\<close> and
  \<open>or(...)\<close>. A comparison with a null value is not true.
\<close>

datatype sql_condition =
    Eq_posts_published bool
  | Like_posts_title string
  | Ilike_posts_title string
  | Ilike_posts_content string
  | Eq_postCategories_categoryId int
  | Eq_posts_slug string
  | Eq_posts_authorId int
  | And "sql_condition list"
  | Or "sql_condition list"

fun holds :: "sql_condition \<Rightarrow> joined_row \<Rightarrow> bool" where
  "holds (Eq_posts_published b) (p, jo, co) = (p_published p = b)"
| "holds (Like_posts_title pat) (p, jo, co) = like_match (p_title p) pat"
| "holds (Ilike_posts_title pat) (p, jo, co) = ilike_match (p_title p) pat"
| "holds (Ilike_posts_content pat) (p, jo, co) =
     (case p_content p of None \<Rightarrow> False | Some c \<Rightarrow> ilike_match c pat)"
| "holds (Eq_postCategories_categoryId i) (p, jo, co) =
     (case jo of None \<Rightarrow> False | Some j \<Rightarrow> pc_categoryId j = i)"
| "holds (Eq_posts_slug g) (p, jo, co) = (p_slug p = g)"
| "holds (Eq_posts_authorId a) (p, jo, co) = (p_authorId p = a)"
| "holds (And cs) row = list_all (\<lambda>c. holds c row) cs"
| "holds (Or cs) row = list_ex (\<lambda>c. holds c row) cs"

text \<open>The parameter of a predicate, and the first error of the parameters of a condition.\<close>

fun conditionParam :: "sql_condition \<Rightarrow> pg_error option" where
  "conditionParam (Eq_posts_published b) = None"
| "conditionParam (Like_posts_title pat) = textParam pat"
| "conditionParam (Ilike_posts_title pat) = textParam pat"
| "conditionParam (Ilike_posts_content pat) = textParam pat"
| "conditionParam (Eq_postCategories_categoryId i) = int4Param i"
| "conditionParam (Eq_posts_slug g) = textParam g"
| "conditionParam (Eq_posts_authorId a) = int4Param a"
| "conditionParam (And cs) = firstError (map conditionParam cs)"
| "conditionParam (Or cs) = firstError (map conditionParam cs)"

definition whereParam :: "sql_condition option \<Rightarrow> pg_error option" where
  "whereParam w = (case w of None \<Rightarrow> None | Some c \<Rightarrow> conditionParam c)"

text \<open>\<open>.where(w)\<close>, where \<open>undefined\<close> keeps every row.\<close>

definition whereRows :: "sql_condition option \<Rightarrow> joined_row list \<Rightarrow> joined_row list" where
  "whereRows w rows = (case w of None \<Rightarrow> rows | Some c \<Rightarrow> filter (holds c) rows)"

text \<open>
  \<open>.orderBy(desc(posts.createdAt))\<close>: rows of equal creation time keep the order of the
  join.
\<close>

definition orderByCreatedAtDesc :: "joined_row list \<Rightarrow> joined_row list" where
  "orderByCreatedAtDesc rows = sort_key (\<lambda>(p, jo, co). - p_createdAt p) rows"

text \<open>The column list of the two \<open>select\<close>s of the post router.\<close>

definition selectPostColumns :: "joined_row \<Rightarrow> raw_post_query_result" where
  "selectPostColumns row =
     (case row of (p, jo, co) \<Rightarrow>
        \<lparr> r_id = p_id p,
          r_title = p_title p,
          r_content = p_content p,
          r_excerpt = p_excerpt p,
          r_slug = p_slug p,
          r_published = p_published p,
          r_featured = p_featured p,
          r_viewCount = p_viewCount p,
          r_readingTime = p_readingTime p,
          r_seoTitle = p_seoTitle p,
          r_seoDescription = p_seoDescription p,
          r_publishedAt = p_publishedAt p,
          r_createdAt = p_createdAt p,
          r_updatedAt = p_updatedAt p,
          r_authorId = Some (p_authorId p),
          r_categories = co \<rparr>)"

section \<open>The procedures (src/server/api)\<close>

subsection \<open>Errors, context and input validation\<close>

datatype trpc_code = BAD_REQUEST | UNAUTHORIZED | NOT_FOUND | CONFLICT | INTERNAL_SERVER_ERROR

text \<open>\<open>new TRPCError({code, message})\<close>.\<close>

datatype trpc_error = TRPCError trpc_code string

text \<open>The request context: the identity provider's user and session identifiers.\<close>

record ctx =
  userId :: "string option"
  sessionId :: "string option"

text \<open>
  \<open>protectedProcedure\<close> (src/server/api/trpc.ts): \<open>!ctx.userId || !ctx.sessionId\<close>
  throws; an empty string is falsy.
\<close>

definition truthyString :: "string option \<Rightarrow> bool" where
  "truthyString so = (case so of None \<Rightarrow> False | Some s \<Rightarrow> s \<noteq> [])"

definition protectedProcedure :: "ctx \<Rightarrow> trpc_error option" where
  "protectedProcedure c =
     (if \<not> truthyString (userId c) \<or> \<not> truthyString (sessionId c)
      then Some (TRPCError UNAUTHORIZED ''You must be signed in to perform this action'')
      else None)"

text \<open>
  The schemas of src/lib/validations.ts, as predicates on the input; an input a schema
  rejects is answered with \<open>BAD_REQUEST\<close> before the procedure's body runs (the message
  lists the schema's issues and is not modelled).
\<close>

definition inputError :: trpc_error where
  "inputError = TRPCError BAD_REQUEST ''Input validation failed''"

definition idSchema :: "int \<Rightarrow> bool" where
  "idSchema i = (i > 0)"

definition titleSchema :: "string \<Rightarrow> bool" where
  "titleSchema t = (1 \<le> length t \<and> length t \<le> 255)"

definition contentSchema :: "string \<Rightarrow> bool" where
  "contentSchema c = (1 \<le> length c)"

definition optional :: "('a \<Rightarrow> bool) \<Rightarrow> 'a option \<Rightarrow> bool" where
  "optional schema v = (case v of None \<Rightarrow> True | Some x \<Rightarrow> schema x)"

record create_post_input =
  ci_title :: string
  ci_content :: string
  ci_published :: "bool option"
  ci_authorId :: "int option"
  ci_categoryIds :: "int list option"

definition createPostSchema :: "create_post_input \<Rightarrow> bool" where
  "createPostSchema input =
     (titleSchema (ci_title input) \<and> contentSchema (ci_content input) \<and>
      optional idSchema (ci_authorId input) \<and>
      optional (list_all idSchema) (ci_categoryIds input))"

record update_post_input =
  ui_id :: int
  ui_title :: "string option"
  ui_content :: "string option"
  ui_published :: "bool option"
  ui_categoryIds :: "int list option"

definition updatePostSchema :: "update_post_input \<Rightarrow> bool" where
  "updatePostSchema input =
     (idSchema (ui_id input) \<and> optional titleSchema (ui_title input) \<and>
      optional contentSchema (ui_content input) \<and>
      optional (list_all idSchema) (ui_categoryIds input))"

definition getPostBySlugSchema :: "string \<Rightarrow> bool" where
  "getPostBySlugSchema slug = (1 \<le> length slug)"

text \<open>\<open>postFiltersSchema\<close>: the input has no field that names an ordering.\<close>

record post_filters =
  f_search :: "string option"
  f_categoryId :: "int option"
  f_published :: "bool option"
  f_authorId :: "int option"
  f_limit :: "int option"
  f_offset :: "int option"

definition postFiltersSchema :: "post_filters \<Rightarrow> bool" where
  "postFiltersSchema input =
     (optional idSchema (f_categoryId input) \<and> optional idSchema (f_authorId input) \<and>
      optional (\<lambda>l. 1 \<le> l \<and> l \<le> 100) (f_limit input) \<and>
      optional (\<lambda>k. 0 \<le> k) (f_offset input))"

text \<open>The defaults of the schema: \<open>limit\<close> 10, \<open>offset\<close> 0.\<close>

definition limitOf :: "post_filters \<Rightarrow> nat" where
  "limitOf input = nat (case f_limit input of None \<Rightarrow> 10 | Some l \<Rightarrow> l)"

definition offsetOf :: "post_filters \<Rightarrow> nat" where
  "offsetOf input = nat (case f_offset input of None \<Rightarrow> 0 | Some k \<Rightarrow> k)"

record create_category_input =
  cc_name :: string
  cc_description :: "string option"

definition createCategorySchema :: "create_category_input \<Rightarrow> bool" where
  "createCategorySchema input =
     (1 \<le> length (cc_name input) \<and> length (cc_name input) \<le> 100 \<and>
      optional (\<lambda>d. length d \<le> 500) (cc_description input))"

subsection \<open>The post router, src/server/api/routers/post.ts\<close>

text \<open>
  \<open>getAll\<close>: the conditions pushed, in the order of the source. \<open>if (input.search)\<close> and
  \<open>if (input.categoryId)\<close> test truthiness: the empty string and 0 push nothing.
  \<open>input.authorId\<close> is not read.
\<close>

definition getAll_conditions :: "post_filters \<Rightarrow> sql_condition list" where
  "getAll_conditions input =
     (case f_published input of None \<Rightarrow> [] | Some b \<Rightarrow> [Eq_posts_published b]) @
     (case f_search input of
        None \<Rightarrow> []
      | Some s \<Rightarrow> if s \<noteq> [] then [Like_posts_title (''%'' @ s @ ''%'')] else []) @
     (case f_categoryId input of
        None \<Rightarrow> []
      | Some c \<Rightarrow> if c \<noteq> 0 then [Eq_postCategories_categoryId c] else [])"

text \<open>\<open>conditions.length > 0 ? and(...conditions) : undefined\<close>.\<close>

definition whereOf :: "sql_condition list \<Rightarrow> sql_condition option" where
  "whereOf conditions = (if length conditions > 0 then Some (And conditions) else None)"

text \<open>The rows of the query of \<open>getAll\<close> before \<open>.limit\<close> and \<open>.offset\<close>.\<close>

definition getAll_ordered :: "db \<Rightarrow> post_filters \<Rightarrow> joined_row list" where
  "getAll_ordered s input =
     orderByCreatedAtDesc (whereRows (whereOf (getAll_conditions input)) (joinedRows s))"

text \<open>\<open>.limit(input.limit).offset(input.offset)\<close>, then the column list.\<close>

definition getAll_results :: "db \<Rightarrow> post_filters \<Rightarrow> raw_post_query_result list" where
  "getAll_results s input =
     map selectPostColumns (take (limitOf input) (drop (offsetOf input) (getAll_ordered s input)))"

text \<open>
  The query of \<open>getAll\<close> with its parameters: those of the conditions, then the limit
  and the offset, which are of type \<open>bigint\<close>.
\<close>

definition getAll_params :: "post_filters \<Rightarrow> pg_error option" where
  "getAll_params input =
     firstError
       [whereParam (whereOf (getAll_conditions input)),
        int8Param (case f_limit input of None \<Rightarrow> 10 | Some l \<Rightarrow> l),
        int8Param (case f_offset input of None \<Rightarrow> 0 | Some k \<Rightarrow> k)]"

definition getAll_query :: "db \<Rightarrow> post_filters \<Rightarrow> pg_error + raw_post_query_result list" where
  "getAll_query s input =
     (case getAll_params input of
        Some e \<Rightarrow> Inl e
      | None \<Rightarrow> Inr (getAll_results s input))"

text \<open>\<open>getAll\<close>: the \<open>catch\<close> turns every error of the query into \<open>INTERNAL_SERVER_ERROR\<close>.\<close>

definition getAll :: "db \<Rightarrow> post_filters \<Rightarrow> trpc_error + post_with_categories list" where
  "getAll s input =
     (if \<not> postFiltersSchema input then Inl inputError
      else (case getAll_query s input of
              Inl e \<Rightarrow> Inl (TRPCError INTERNAL_SERVER_ERROR ''Failed to fetch posts'')
            | Inr results \<Rightarrow> Inr (transformPostQueryResults results)))"

text \<open>
  \<open>getBySlug\<close>: the \<open>catch\<close> passes the \<open>NOT_FOUND\<close> on and turns an error of the query
  into \<open>INTERNAL_SERVER_ERROR\<close>. The result is \<open>transformedPosts[0]\<close>, which is \<open>undefined\<close>
  (\<open>None\<close>) for an empty array.
\<close>

definition getBySlug_results :: "db \<Rightarrow> string \<Rightarrow> raw_post_query_result list" where
  "getBySlug_results s input =
     map selectPostColumns (whereRows (Some (Eq_posts_slug input)) (joinedRows s))"

definition getBySlug_query :: "db \<Rightarrow> string \<Rightarrow> pg_error + raw_post_query_result list" where
  "getBySlug_query s input =
     (case whereParam (Some (Eq_posts_slug input)) of
        Some e \<Rightarrow> Inl e
      | None \<Rightarrow> Inr (getBySlug_results s input))"

definition getBySlug :: "db \<Rightarrow> string \<Rightarrow> trpc_error + post_with_categories option" where
  "getBySlug s input =
     (if \<not> getPostBySlugSchema input then Inl inputError
      else (case getBySlug_query s input of
              Inl e \<Rightarrow> Inl (TRPCError INTERNAL_SERVER_ERROR ''Failed to fetch post'')
            | Inr results \<Rightarrow>
                if length results = 0 then Inl (TRPCError NOT_FOUND ''Post not found'')
                else Inr (case transformPostQueryResults results of
                            [] \<Rightarrow> None
                          | p # _ \<Rightarrow> Some p)))"

text \<open>
  The junction rows of \<open>create\<close> and \<open>update\<close>:
  \<open>categoryIds.map((categoryId) => ({postId, categoryId}))\<close>.
\<close>

definition junctionValues :: "int \<Rightarrow> int list \<Rightarrow> (int \<times> int) list" where
  "junctionValues postId categoryIds = map (\<lambda>categoryId. (postId, categoryId)) categoryIds"

text \<open>
  \<open>create\<close> of post.ts: the author is the constant 1; the \<open>catch\<close> turns every error of
  the body, a \<open>TRPCError\<close> included, into \<open>INTERNAL_SERVER_ERROR\<close>.
\<close>

definition create_body :: "date \<Rightarrow> create_post_input \<Rightarrow> db \<Rightarrow> (trpc_error + post) \<times> db" where
  "create_body now input s =
     (let slug = generateSlug (ci_title input);
          dbUserId = 1;
          published = (case ci_published input of None \<Rightarrow> False | Some b \<Rightarrow> b);
          categoryIds = (case ci_categoryIds input of None \<Rightarrow> [] | Some cs \<Rightarrow> cs);
          failed = TRPCError INTERNAL_SERVER_ERROR ''Failed to create post''
      in case insert_posts now (ci_title input) (ci_content input) slug published dbUserId s of
           (Inl e, s1) \<Rightarrow> (Inl failed, s1)
         | (Inr [], s1) \<Rightarrow> (Inl failed, s1)
         | (Inr (newPost # _), s1) \<Rightarrow>
             if length categoryIds > 0
             then (case insert_postCategories now (junctionValues (p_id newPost) categoryIds) s1 of
                     (Inl e, s2) \<Rightarrow> (Inl failed, s2)
                   | (Inr _, s2) \<Rightarrow> (Inr newPost, s2))
             else (Inr newPost, s1))"

definition create :: "ctx \<Rightarrow> date \<Rightarrow> create_post_input \<Rightarrow> db \<Rightarrow> (trpc_error + post) \<times> db" where
  "create c now input s =
     (case protectedProcedure c of
        Some e \<Rightarrow> (Inl e, s)
      | None \<Rightarrow> if \<not> createPostSchema input then (Inl inputError, s) else create_body now input s)"

text \<open>
  \<open>update\<close> (the same text in both copies of the router). \<open>if (updateData.title)\<close> tests
  truthiness. The \<open>catch\<close> passes a \<open>TRPCError\<close> on and turns every other error into
  \<open>INTERNAL_SERVER_ERROR\<close>.
\<close>

definition update_payload :: "date \<Rightarrow> update_post_input \<Rightarrow> post_set" where
  "update_payload now input =
     \<lparr> set_title = ui_title input,
       set_content = ui_content input,
       set_published = ui_published input,
       set_slug = (case ui_title input of
                     None \<Rightarrow> None
                   | Some t \<Rightarrow> if t \<noteq> [] then Some (generateSlug t) else None),
       set_updatedAt = now \<rparr>"

definition update_body :: "date \<Rightarrow> update_post_input \<Rightarrow> db \<Rightarrow> (trpc_error + post) \<times> db" where
  "update_body now input s =
     (let failed = TRPCError INTERNAL_SERVER_ERROR ''Failed to update post''
      in case update_posts (update_payload now input) (ui_id input) s of
           (Inl e, s1) \<Rightarrow> (Inl failed, s1)
         | (Inr [], s1) \<Rightarrow> (Inl (TRPCError NOT_FOUND ''Post not found''), s1)
         | (Inr (updatedPost # _), s1) \<Rightarrow>
             (case ui_categoryIds input of
                None \<Rightarrow> (Inr updatedPost, s1)
              | Some categoryIds \<Rightarrow>
                  (case delete_postCategories (ui_id input) s1 of
                     (Inl e, s2) \<Rightarrow> (Inl failed, s2)
                   | (Inr _, s2) \<Rightarrow>
                       if length categoryIds > 0
                       then (case insert_postCategories now (junctionValues (ui_id input) categoryIds) s2 of
                               (Inl e, s3) \<Rightarrow> (Inl failed, s3)
                             | (Inr _, s3) \<Rightarrow> (Inr updatedPost, s3))
                       else (Inr updatedPost, s2))))"

definition update :: "ctx \<Rightarrow> date \<Rightarrow> update_post_input \<Rightarrow> db \<Rightarrow> (trpc_error + post) \<times> db" where
  "update c now input s =
     (case protectedProcedure c of
        Some e \<Rightarrow> (Inl e, s)
      | None \<Rightarrow> if \<not> updatePostSchema input then (Inl inputError, s) else update_body now input s)"

text \<open>
  \<open>delete\<close> (the same text in both copies of the router). The \<open>catch\<close> passes the
  \<open>NOT_FOUND\<close> on and turns an error of the statement into \<open>INTERNAL_SERVER_ERROR\<close>.
\<close>

definition delete_body :: "int \<Rightarrow> db \<Rightarrow> (trpc_error + post) \<times> db" where
  "delete_body input s =
     (case delete_posts input s of
        (Inl e, s1) \<Rightarrow> (Inl (TRPCError INTERNAL_SERVER_ERROR ''Failed to delete post''), s1)
      | (Inr [], s1) \<Rightarrow> (Inl (TRPCError NOT_FOUND ''Post not found''), s1)
      | (Inr (deletedPost # _), s1) \<Rightarrow> (Inr deletedPost, s1))"

definition delete :: "ctx \<Rightarrow> int \<Rightarrow> db \<Rightarrow> (trpc_error + post) \<times> db" where
  "delete c input s =
     (case protectedProcedure c of
        Some e \<Rightarrow> (Inl e, s)
      | None \<Rightarrow> if \<not> idSchema input then (Inl inputError, s) else delete_body input s)"

subsection \<open>The second copy of the post router, src/unnamed/part_008\<close>

text \<open>
  The file repeats post.ts but for \<open>create\<close>, which looks the author up and maps the
  errors of the database.
\<close>

text \<open>
  What the body of its \<open>create\<close> can throw: a database error, the \<open>TRPCError\<close> the
  body throws itself, or the \<open>TypeError\<close> of reading \<open>created.id\<close> of \<open>undefined\<close>.
\<close>

datatype thrown = DbError pg_error | Thrown trpc_error | TypeError

definition codeName :: "trpc_code \<Rightarrow> string" where
  "codeName k =
     (case k of
        BAD_REQUEST \<Rightarrow> ''BAD_REQUEST''
      | UNAUTHORIZED \<Rightarrow> ''UNAUTHORIZED''
      | NOT_FOUND \<Rightarrow> ''NOT_FOUND''
      | CONFLICT \<Rightarrow> ''CONFLICT''
      | INTERNAL_SERVER_ERROR \<Rightarrow> ''INTERNAL_SERVER_ERROR'')"

text \<open>
  The \<open>catch\<close> of its \<open>create\<close>: \<open>error?.code\<close> is the SQLSTATE of a database error and
  the code of a \<open>TRPCError\<close>. The message of the fallback names the underlying message in
  development only; the model keeps the production message.
\<close>

definition create_catch :: "thrown \<Rightarrow> trpc_error" where
  "create_catch error =
     (let code = (case error of
                    DbError (PgError sqlstate) \<Rightarrow> Some sqlstate
                  | Thrown (TRPCError k m) \<Rightarrow> Some (codeName k)
                  | TypeError \<Rightarrow> None)
      in if code = Some ''23503'' then
           TRPCError BAD_REQUEST
             ''Failed to create post: related record not found (author or category). Ensure your local DB has a matching user and categories.''
         else if code = Some ''23505'' then
           TRPCError CONFLICT
             ''Failed to create post: a post with the same slug already exists. Try changing the title.''
         else TRPCError INTERNAL_SERVER_ERROR ''Failed to create post'')"

text \<open>
  The author of its \<open>create\<close>: user 1 when the table has it, else a user made from the
  identity provider's identifier (\<open>clerkId.slice(0, 8)\<close> is \<open>take 8\<close>).
\<close>

definition ensureUser :: "ctx \<Rightarrow> date \<Rightarrow> db \<Rightarrow> (thrown + int) \<times> db" where
  "ensureUser c now s =
     (let dbUserId = 1;
          existingUser = take 1 (filter (\<lambda>u. u_id u = dbUserId) (users s))
      in if length existingUser = 0 then
           (case userId c of
              None \<Rightarrow>
                (Inl (Thrown (TRPCError BAD_REQUEST
                   ''No local database user available. Please seed a user or sign in so a database user can be created.'')), s)
            | Some clerkId \<Rightarrow>
                if clerkId = [] then
                  (Inl (Thrown (TRPCError BAD_REQUEST
                     ''No local database user available. Please seed a user or sign in so a database user can be created.'')), s)
                else
                  (case insert_users now (''clerk_'' @ take 8 clerkId) (clerkId @ ''@clerk.local'') s of
                     (Inl e, s1) \<Rightarrow> (Inl (DbError e), s1)
                   | (Inr [], s1) \<Rightarrow> (Inl TypeError, s1)
                   | (Inr (created # _), s1) \<Rightarrow> (Inr (u_id created), s1)))
         else (Inr dbUserId, s))"

definition create_part_008_body :: "ctx \<Rightarrow> date \<Rightarrow> create_post_input \<Rightarrow> db \<Rightarrow> (trpc_error + post) \<times> db" where
  "create_part_008_body c now input s =
     (let slug = generateSlug (ci_title input);
          published = (case ci_published input of None \<Rightarrow> False | Some b \<Rightarrow> b);
          categoryIds = (case ci_categoryIds input of None \<Rightarrow> [] | Some cs \<Rightarrow> cs)
      in case ensureUser c now s of
           (Inl t, s0) \<Rightarrow> (Inl (create_catch t), s0)
         | (Inr dbUserId, s0) \<Rightarrow>
             (case insert_posts now (ci_title input) (ci_content input) slug published dbUserId s0 of
                (Inl e, s1) \<Rightarrow> (Inl (create_catch (DbError e)), s1)
              | (Inr [], s1) \<Rightarrow>
                  (Inl (create_catch (Thrown (TRPCError INTERNAL_SERVER_ERROR ''Failed to create post''))), s1)
              | (Inr (newPost # _), s1) \<Rightarrow>
                  if length categoryIds > 0
                  then (case insert_postCategories now (junctionValues (p_id newPost) categoryIds) s1 of
                          (Inl e, s2) \<Rightarrow> (Inl (create_catch (DbError e)), s2)
                        | (Inr _, s2) \<Rightarrow> (Inr newPost, s2))
                  else (Inr newPost, s1)))"

definition create_part_008 :: "ctx \<Rightarrow> date \<Rightarrow> create_post_input \<Rightarrow> db \<Rightarrow> (trpc_error + post) \<times> db" where
  "create_part_008 c now input s =
     (case protectedProcedure c of
        Some e \<Rightarrow> (Inl e, s)
      | None \<Rightarrow> if \<not> createPostSchema input then (Inl inputError, s) else create_part_008_body c now input s)"

subsection \<open>The category router, src/server/api/routers/category.ts\<close>

text \<open>\<open>create\<close>, a public procedure: every error of the body becomes \<open>INTERNAL_SERVER_ERROR\<close>.\<close>

definition category_create ::
  "date \<Rightarrow> create_category_input \<Rightarrow> db \<Rightarrow> (trpc_error + category) \<times> db"
where
  "category_create now input s =
     (if \<not> createCategorySchema input then (Inl inputError, s)
      else
        (let slug = generateSlug (cc_name input);
             failed = TRPCError INTERNAL_SERVER_ERROR ''Failed to create category''
         in case insert_categories now (cc_name input) (cc_description input) slug s of
              (Inl e, s1) \<Rightarrow> (Inl failed, s1)
            | (Inr [], s1) \<Rightarrow> (Inl failed, s1)
            | (Inr (newCategory # _), s1) \<Rightarrow> (Inr newCategory, s1)))"

subsection \<open>The query helper \<open>PostQueries.getPostsWithDetails\<close>, src/lib/db-utils.ts\<close>

text \<open>
  No procedure calls the helper. Its arguments are not validated and it has no \<open>catch\<close>:
  an error of the query is the error of the helper. The defaults of \<open>limit\<close> and
  \<open>offset\<close> are 10 and 0.
\<close>

record details_args =
  a_limit :: "int option"
  a_offset :: "int option"
  a_authorId :: "int option"
  a_categoryId :: "int option"
  a_published :: "bool option"
  a_search :: "string option"

text \<open>The conditions pushed, in the order of the source; \<open>if (authorId)\<close> comes first.\<close>

definition details_conditions :: "details_args \<Rightarrow> sql_condition list" where
  "details_conditions args =
     (case a_authorId args of
        None \<Rightarrow> []
      | Some a \<Rightarrow> if a \<noteq> 0 then [Eq_posts_authorId a] else []) @
     (case a_published args of None \<Rightarrow> [] | Some b \<Rightarrow> [Eq_posts_published b]) @
     (case a_search args of
        None \<Rightarrow> []
      | Some q \<Rightarrow>
          if q \<noteq> []
          then [Or [Ilike_posts_title (''%'' @ q @ ''%''), Ilike_posts_content (''%'' @ q @ ''%'')]]
          else []) @
     (case a_categoryId args of
        None \<Rightarrow> []
      | Some c \<Rightarrow> if c \<noteq> 0 then [Eq_postCategories_categoryId c] else [])"

text \<open>
  The join of the helper: \<open>users\<close> on the author first, then the junction and the
  categories as in the router.
\<close>

definition joinAuthor :: "db \<Rightarrow> post \<Rightarrow> user option list" where
  "joinAuthor s p =
     (case filter (\<lambda>u. u_id u = p_authorId p) (users s) of [] \<Rightarrow> [None] | us \<Rightarrow> map Some us)"

definition joinedDetailRows :: "db \<Rightarrow> (joined_row \<times> user option) list" where
  "joinedDetailRows s =
     concat (map (\<lambda>p. concat (map (\<lambda>uo. map (\<lambda>row. (row, uo)) (joinPost s p)) (joinAuthor s p)))
       (posts s))"

text \<open>The rows the helper selects.\<close>

record details_row =
  dr_post :: post
  dr_author :: "user option"
  dr_categoryId :: "int option"
  dr_categoryName :: "string option"
  dr_categorySlug :: "string option"

definition selectDetails :: "joined_row \<times> user option \<Rightarrow> details_row" where
  "selectDetails row =
     (case row of ((p, jo, co), uo) \<Rightarrow>
        \<lparr> dr_post = p,
          dr_author = uo,
          dr_categoryId = map_option pc_categoryId jo,
          dr_categoryName = map_option c_name co,
          dr_categorySlug = map_option c_slug co \<rparr>)"

definition details_limit :: "details_args \<Rightarrow> int" where
  "details_limit args = (case a_limit args of None \<Rightarrow> 10 | Some l \<Rightarrow> l)"

definition details_offset :: "details_args \<Rightarrow> int" where
  "details_offset args = (case a_offset args of None \<Rightarrow> 0 | Some k \<Rightarrow> k)"

definition details_results :: "details_args \<Rightarrow> db \<Rightarrow> details_row list" where
  "details_results args s =
     map selectDetails
       (take (nat (details_limit args))
         (drop (nat (details_offset args))
           (sort_key (\<lambda>((p, jo, co), uo). - p_createdAt p)
             (filter (\<lambda>(row, uo). case whereOf (details_conditions args) of
                                    None \<Rightarrow> True
                                  | Some c \<Rightarrow> holds c row)
               (joinedDetailRows s)))))"

text \<open>
  The query with its parameters; a negative offset (2201X) or limit (2201W) is an error
  of the engine.
\<close>

definition details_query :: "details_args \<Rightarrow> db \<Rightarrow> pg_error + details_row list" where
  "details_query args s =
     (case firstError [whereParam (whereOf (details_conditions args)),
                       int8Param (details_limit args), int8Param (details_offset args)] of
        Some e \<Rightarrow> Inl e
      | None \<Rightarrow>
          if details_offset args < 0 then Inl (PgError ''2201X'')
          else if details_limit args < 0 then Inl (PgError ''2201W'')
          else Inr (details_results args s))"

text \<open>
  \<open>PostWithDetails\<close>: the post's columns, the author and the junction rows with their
  category (the list \<open>postTags\<close>, which the helper leaves empty, is not modelled).
\<close>

record post_category_with_category = post_category +
  pcc_category :: category

record post_with_details = post +
  d_author :: "user option"
  d_postCategories :: "post_category_with_category list"

text \<open>The entry pushed for a category: the object literal of the loop.\<close>

definition categoryEntry ::
  "date \<Rightarrow> int \<Rightarrow> int \<Rightarrow> string \<Rightarrow> string option \<Rightarrow> post_category_with_category"
where
  "categoryEntry now postId categoryId categoryName categorySlug =
     \<lparr> pc_id = 0,
       pc_postId = postId,
       pc_categoryId = categoryId,
       pc_createdAt = now,
       pcc_category =
         \<lparr> c_id = categoryId,
           c_name = categoryName,
           c_description = None,
           c_slug = (case categorySlug of None \<Rightarrow> [] | Some g \<Rightarrow> g),
           c_parentId = None,
           c_color = None,
           c_icon = None,
           c_isActive = True,
           c_sortOrder = 0,
           c_postCount = 0,
           c_createdAt = now,
           c_updatedAt = now \<rparr> \<rparr>"

text \<open>
  The body of the grouping loop. A category is added when the row has a category
  identifier and name (both truthy) and no entry of the post has that identifier.
\<close>

definition detailsStep ::
  "date \<Rightarrow> (int, post_with_details) js_map \<Rightarrow> details_row \<Rightarrow> (int, post_with_details) js_map"
where
  "detailsStep now postsMap row =
     (let postId = p_id (dr_post row);
          postsMap1 =
            (if \<not> map_has postsMap postId
             then map_set postsMap postId
                    (post.extend (dr_post row) (post_with_details.fields (dr_author row) []))
             else postsMap)
      in case map_get postsMap1 postId of
           None \<Rightarrow> postsMap1
         | Some post \<Rightarrow>
             (case (dr_categoryId row, dr_categoryName row) of
                (Some categoryId, Some categoryName) \<Rightarrow>
                  if categoryId \<noteq> 0 \<and> categoryName \<noteq> [] \<and>
                     \<not> list_ex (\<lambda>c. pc_categoryId c = categoryId) (d_postCategories post)
                  then map_set postsMap1 postId
                         (post\<lparr> d_postCategories := d_postCategories post @
                            [categoryEntry now postId categoryId categoryName
                               (dr_categorySlug row)] \<rparr>)
                  else postsMap1
              | _ \<Rightarrow> postsMap1))"

definition groupDetails :: "date \<Rightarrow> details_row list \<Rightarrow> post_with_details list" where
  "groupDetails now results = map_values (foldl (detailsStep now) [] results)"

definition getPostsWithDetails ::
  "date \<Rightarrow> details_args \<Rightarrow> db \<Rightarrow> pg_error + post_with_details list"
where
  "getPostsWithDetails now args s =
     (case details_query args s of
        Inl e \<Rightarrow> Inl e
      | Inr results \<Rightarrow> Inr (groupDetails now results))"

section \<open>Notions of the statements\<close>

text \<open>
  The values a multi-row insert into the junction accepts: identifiers of the columns'
  type, no pair twice, none stored already, every post and category present.
\<close>

definition junctionAccepted :: "(int \<times> int) list \<Rightarrow> db \<Rightarrow> bool" where
  "junctionAccepted vs s =
     (list_all (\<lambda>(p, c). int4 p \<and> int4 c) vs \<and>
      distinct vs \<and> set vs \<inter> set (map pairOf (postCategories s)) = {} \<and>
      \<not> list_ex (\<lambda>(p, c). p \<notin> set (map p_id (posts s)) \<or> c \<notin> set (map c_id (categories s))) vs)"

text \<open>
  A category id list that names each category once and only categories of the store,
  by identifiers of the column's type.
\<close>

definition namesCategories :: "int list \<Rightarrow> db \<Rightarrow> bool" where
  "namesCategories cs s =
     (distinct cs \<and> list_all (\<lambda>k. int4 k \<and> k \<in> set (map c_id (categories s))) cs)"

text \<open>The categories a post is associated with: the junction rows of the post.\<close>

definition categoryIdsOf :: "int \<Rightarrow> db \<Rightarrow> int list" where
  "categoryIdsOf i s = map pc_categoryId (filter (\<lambda>j. pc_postId j = i) (postCategories s))"

text \<open>
  The update of the post row raises: a parameter is not of its type, a value is too long
  for its column, or a changed row violates a constraint.
\<close>

definition updateRefused :: "post_set \<Rightarrow> int \<Rightarrow> bool" where
  "updateRefused v i =
     (firstError [textParamOpt (set_title v), textParamOpt (set_content v),
                  textParamOpt (set_slug v), int4Param i] \<noteq> None \<or>
      varcharTooLongOpt 200 (set_title v) \<or> varcharTooLongOpt 250 (set_slug v))"

definition updateRejected :: "post_set \<Rightarrow> int \<Rightarrow> db \<Rightarrow> bool" where
  "updateRejected v i s =
     (let others = filter (\<lambda>p. p_id p \<noteq> i) (posts s);
          changed = map (apply_post_set v) (filter (\<lambda>p. p_id p = i) (posts s))
      in updateRefused v i \<or> list_ex posts_check_violated changed \<or>
         list_ex (posts_unique_violated others) changed)"

definition postFound :: "int \<Rightarrow> db \<Rightarrow> bool" where
  "postFound i s = (i \<in> set (map p_id (posts s)))"

text \<open>The posts after the update of the row has gone through.\<close>

definition postsAfter :: "post_set \<Rightarrow> int \<Rightarrow> db \<Rightarrow> post list" where
  "postsAfter v i s = map (\<lambda>p. if p_id p = i then apply_post_set v p else p) (posts s)"


text \<open>
  What an update may do to one row of \<open>posts\<close>: the columns outside the input stay, and
  either the row is as before or it is the row of the input's identifier with the
  supplied fields set, the slug made from a supplied title and the time stamp renewed.
\<close>

definition rowFrame :: "date \<Rightarrow> update_post_input \<Rightarrow> post \<Rightarrow> post \<Rightarrow> bool" where
  "rowFrame now input p p' =
     (p_id p' = p_id p \<and> p_excerpt p' = p_excerpt p \<and> p_authorId p' = p_authorId p \<and>
      p_featured p' = p_featured p \<and> p_viewCount p' = p_viewCount p \<and>
      p_readingTime p' = p_readingTime p \<and> p_seoTitle p' = p_seoTitle p \<and>
      p_seoDescription p' = p_seoDescription p \<and> p_publishedAt p' = p_publishedAt p \<and>
      p_createdAt p' = p_createdAt p \<and>
      (p' = p \<or>
       (p_id p = ui_id input \<and>
        p_title p' = (case ui_title input of None \<Rightarrow> p_title p | Some t \<Rightarrow> varchar 200 t) \<and>
        p_content p' = (case ui_content input of None \<Rightarrow> p_content p | Some x \<Rightarrow> Some x) \<and>
        p_published p' = (case ui_published input of None \<Rightarrow> p_published p | Some b \<Rightarrow> b) \<and>
        p_slug p' = (case ui_title input of None \<Rightarrow> p_slug p | Some t \<Rightarrow> generateSlug t) \<and>
        p_updatedAt p' = now)))"

text \<open>
  The keys of the schema that the join depends on: the primary keys of \<open>posts\<close> and
  \<open>categories\<close> and the unique index \<open>post_categories_unique_idx\<close>.
\<close>

definition keysUnique :: "db \<Rightarrow> bool" where
  "keysUnique s =
     (distinct (map p_id (posts s)) \<and> distinct (map c_id (categories s)) \<and>
      distinct (map pairOf (postCategories s)))"



text \<open>
  A store as the statements leave it: the keys are unique and no identifier of a post or
  a category is beyond its sequence.
\<close>

definition storeKeys :: "db \<Rightarrow> bool" where
  "storeKeys s =
     (keysUnique s \<and> list_all (\<lambda>p. p_id p \<le> posts_id_seq s) (posts s) \<and>
      list_all (\<lambda>c. c_id c \<le> categories_id_seq s) (categories s))"

section \<open>Example data\<close>

text \<open>Rows with every column at a plain value, for the concrete cases below.\<close>

definition exampleUser :: "int \<Rightarrow> string \<Rightarrow> string \<Rightarrow> user" where
  "exampleUser i username email =
     \<lparr> u_id = i, u_username = username, u_email = email, u_firstName = None, u_lastName = None,
       u_bio = None, u_avatar = None, u_isActive = True, u_emailVerified = False,
       u_createdAt = 0, u_updatedAt = 0 \<rparr>"

definition examplePost :: "int \<Rightarrow> string \<Rightarrow> string \<Rightarrow> int \<Rightarrow> date \<Rightarrow> post" where
  "examplePost i title slug author created =
     \<lparr> p_id = i, p_title = title, p_content = Some ''Some content here'', p_excerpt = None,
       p_authorId = author, p_slug = slug, p_published = False, p_featured = False,
       p_viewCount = 0, p_readingTime = Some 1, p_seoTitle = None, p_seoDescription = None,
       p_publishedAt = None, p_createdAt = created, p_updatedAt = created \<rparr>"

definition exampleCategory :: "int \<Rightarrow> string \<Rightarrow> string \<Rightarrow> category" where
  "exampleCategory i name slug =
     \<lparr> c_id = i, c_name = name, c_description = None, c_slug = slug, c_parentId = None,
       c_color = None, c_icon = None, c_isActive = True, c_sortOrder = 0, c_postCount = 0,
       c_createdAt = 0, c_updatedAt = 0 \<rparr>"

definition exampleJunction :: "int \<Rightarrow> int \<Rightarrow> int \<Rightarrow> post_category" where
  "exampleJunction i p c = \<lparr> pc_id = i, pc_postId = p, pc_categoryId = c, pc_createdAt = 0 \<rparr>"

definition alice :: user where
  "alice = exampleUser 1 ''alice'' ''alice@example.org''"

definition bob :: user where
  "bob = exampleUser 2 ''bob'' ''bob@example.org''"

definition tech :: category where
  "tech = exampleCategory 1 ''Tech'' ''tech''"

definition science :: category where
  "science = exampleCategory 2 ''Science'' ''science''"

definition travel :: category where
  "travel = exampleCategory 3 ''Travel'' ''travel''"

definition firstPost :: post where
  "firstPost = examplePost 1 ''My First Post'' ''my-first-post'' 1 1000"

definition secondPost :: post where
  "secondPost = examplePost 2 ''Same Title'' ''same-title'' 2 2000"

text \<open>
  A store with two users, three categories, two posts (the first by user 1, the second,
  newer one by user 2) and the first post in the categories 1 and 2.
\<close>

definition exampleDb :: db where
  "exampleDb =
     \<lparr> users = [alice, bob],
       posts = [firstPost, secondPost],
       categories = [tech, science, travel],
       postCategories = [exampleJunction 1 1 1, exampleJunction 2 1 2],
       users_id_seq = 2, posts_id_seq = 2, categories_id_seq = 3, post_categories_id_seq = 2 \<rparr>"

definition signedIn :: ctx where
  "signedIn = \<lparr> userId = Some ''user_2abc'', sessionId = Some ''sess_1'' \<rparr>"

definition noFilters :: post_filters where
  "noFilters =
     \<lparr> f_search = None, f_categoryId = None, f_published = None, f_authorId = None,
       f_limit = None, f_offset = None \<rparr>"

definition noArgs :: details_args where
  "noArgs =
     \<lparr> a_limit = None, a_offset = None, a_authorId = None, a_categoryId = None,
       a_published = None, a_search = None \<rparr>"

text \<open>An update that supplies a category id list and nothing else.\<close>

definition setCategories :: "int \<Rightarrow> int list \<Rightarrow> update_post_input" where
  "setCategories i cs =
     \<lparr> ui_id = i, ui_title = None, ui_content = None, ui_published = None,
       ui_categoryIds = Some cs \<rparr>"

text \<open>An update that supplies a title and nothing else.\<close>

definition setTitle :: "int \<Rightarrow> string \<Rightarrow> update_post_input" where
  "setTitle i t =
     \<lparr> ui_id = i, ui_title = Some t, ui_content = None, ui_published = None,
       ui_categoryIds = None \<rparr>"

text \<open>The input of \<open>create\<close> with a title, the content of the specification's scenario and
  nothing else.\<close>

definition newPost :: "string \<Rightarrow> create_post_input" where
  "newPost t =
     \<lparr> ci_title = t, ci_content = ''Some content here'', ci_published = None,
       ci_authorId = None, ci_categoryIds = None \<rparr>"

section \<open>Slug generation: the source against the specification's wording\<close>

lemma white_not_alnum: "isWhiteSpace c \<Longrightarrow> \<not> isLowerAlnum c"
  by (auto simp: isWhiteSpace_def isLowerAlnum_def Let_def)

lemma hyphen_not_alnum: "\<not> isLowerAlnum CHR ''-''"
  by (simp add: isLowerAlnum_def)

lemma alnumRuns_dropWhile:
  "(\<And>c. P c \<Longrightarrow> \<not> isLowerAlnum c) \<Longrightarrow> alnumRuns (dropWhile P t) = alnumRuns t"
  by (induction t) auto

lemma alnumRuns_none: "\<forall>c\<in>set t. \<not> isLowerAlnum c \<Longrightarrow> alnumRuns t = []"
  by (induction t) auto

lemma alnumRuns_Nil_iff: "alnumRuns t = [] \<longleftrightarrow> (\<forall>c\<in>set t. \<not> isLowerAlnum c)"
  by (induction t rule: alnumRuns.induct) auto

lemma alnumRuns_suffix:
  "\<forall>c\<in>set ys. \<not> isLowerAlnum c \<Longrightarrow> alnumRuns (xs @ ys) = alnumRuns xs"
proof (induction xs rule: alnumRuns.induct)
  case 1
  then show ?case by (simp add: alnumRuns_none)
next
  case (2 c cs)
  show ?case
  proof (cases "isLowerAlnum c")
    case False
    with 2 show ?thesis by simp
  next
    case True
    show ?thesis
    proof (cases "\<forall>x\<in>set cs. isLowerAlnum x")
      case all: True
      have tw: "takeWhile isLowerAlnum ys = []" using 2(3) by (cases ys) auto
      have dw: "dropWhile isLowerAlnum ys = ys" using 2(3) by (cases ys) auto
      from all have a: "takeWhile isLowerAlnum (cs @ ys) = cs"
        by (simp add: takeWhile_append2 tw)
      from all have b: "dropWhile isLowerAlnum (cs @ ys) = ys"
        by (simp add: dropWhile_append2 dw)
      from all have c: "takeWhile isLowerAlnum cs = cs" and d: "dropWhile isLowerAlnum cs = []"
        by simp_all
      have e: "alnumRuns ys = []" using 2(3) by (rule alnumRuns_none)
      have "alnumRuns ((c # cs) @ ys) = [c # cs]"
        using True by (simp only: append_Cons alnumRuns.simps if_True a b e)
      moreover have "alnumRuns (c # cs) = [c # cs]"
        using True by (simp only: alnumRuns.simps if_True c d)
      ultimately show ?thesis by simp
    next
      case False
      then obtain x where x: "x \<in> set cs" "\<not> isLowerAlnum x" by blast
      then have "takeWhile isLowerAlnum (cs @ ys) = takeWhile isLowerAlnum cs"
        and "dropWhile isLowerAlnum (cs @ ys) = dropWhile isLowerAlnum cs @ ys"
        by (simp_all add: takeWhile_append1 dropWhile_append1)
      then show ?thesis using True 2(1)[OF True 2(3)] by simp
    qed
  qed
qed

lemma alnumRuns_trim: "alnumRuns (trim t) = alnumRuns t"
proof -
  let ?d = "dropWhile isWhiteSpace t"
  let ?x = "rev (dropWhile isWhiteSpace (rev ?d))"
  let ?y = "rev (takeWhile isWhiteSpace (rev ?d))"
  have "rev (rev ?d) = rev (takeWhile isWhiteSpace (rev ?d) @ dropWhile isWhiteSpace (rev ?d))"
    by (simp only: takeWhile_dropWhile_id)
  then have split: "?d = ?x @ ?y" by (simp only: rev_rev_ident rev_append)
  have "\<forall>c\<in>set ?y. \<not> isLowerAlnum c"
    by (auto dest: set_takeWhileD white_not_alnum)
  then have "alnumRuns (?x @ ?y) = alnumRuns ?x" by (rule alnumRuns_suffix)
  with split have "alnumRuns ?d = alnumRuns ?x" by simp
  then show ?thesis
    by (simp add: trim_def alnumRuns_dropWhile white_not_alnum)
qed

lemma replace_alnum_prefix:
  "\<forall>c\<in>set w. isLowerAlnum c \<Longrightarrow> replaceNonAlnumRuns (w @ t) = w @ replaceNonAlnumRuns t"
  by (induction w) auto

lemma replace_alnum_start:
  "t = [] \<or> isLowerAlnum (hd t) \<Longrightarrow>
   replaceNonAlnumRuns t = joinHyphen (alnumRuns t) \<or>
   (alnumRuns t \<noteq> [] \<and> replaceNonAlnumRuns t = joinHyphen (alnumRuns t) @ ''-'')"
proof (induction "length t" arbitrary: t rule: less_induct)
  case less
  show ?case
  proof (cases t)
    case Nil
    then show ?thesis by simp
  next
    case (Cons c cs)
    with less.prems have c: "isLowerAlnum c" by simp
    let ?w = "c # takeWhile isLowerAlnum cs"
    let ?d = "dropWhile isLowerAlnum cs"
    have t: "t = ?w @ ?d" using Cons by simp
    have w: "\<forall>x\<in>set ?w. isLowerAlnum x" using c by (auto dest: set_takeWhileD)
    have R: "replaceNonAlnumRuns t = ?w @ replaceNonAlnumRuns ?d"
      using replace_alnum_prefix[OF w, of ?d] t by simp
    have A: "alnumRuns t = ?w # alnumRuns ?d" using Cons c by simp
    show ?thesis
    proof (cases ?d)
      case Nil
      have "replaceNonAlnumRuns t = ?w" "alnumRuns t = [?w]"
        using R A by (simp_all only: Nil replaceNonAlnumRuns.simps alnumRuns.simps append_Nil2)
      then show ?thesis by simp
    next
      case d: (Cons x d')
      have x: "\<not> isLowerAlnum x"
        using hd_dropWhile[of isLowerAlnum cs] d by simp
      let ?e = "dropWhile (\<lambda>y. \<not> isLowerAlnum y) d'"
      have Rd: "replaceNonAlnumRuns ?d = CHR ''-'' # replaceNonAlnumRuns ?e"
        using d x by simp
      have Ad: "alnumRuns ?d = alnumRuns ?e"
        using d x by (simp add: alnumRuns_dropWhile)
      have len: "length ?e < length t"
      proof -
        have "length ?e \<le> length d'" by (rule length_dropWhile_le)
        also have "\<dots> < length ?d" using d by simp
        also have "\<dots> \<le> length cs" by (rule length_dropWhile_le)
        also have "\<dots> < length t" using Cons by simp
        finally show ?thesis .
      qed
      have start: "?e = [] \<or> isLowerAlnum (hd ?e)"
        using hd_dropWhile[of "\<lambda>y. \<not> isLowerAlnum y" d'] by blast
      from less.hyps[OF len start]
      consider (a) "replaceNonAlnumRuns ?e = joinHyphen (alnumRuns ?e)"
        | (b) "alnumRuns ?e \<noteq> []" "replaceNonAlnumRuns ?e = joinHyphen (alnumRuns ?e) @ ''-''"
        by blast
      then show ?thesis
      proof cases
        case a
        show ?thesis
        proof (cases "alnumRuns ?e")
          case Nil
          then show ?thesis using R A Rd Ad a by simp
        next
          case (Cons v vs)
          then show ?thesis using R A Rd Ad a by simp
        qed
      next
        case b
        then obtain v vs where "alnumRuns ?e = v # vs" by (cases "alnumRuns ?e") auto
        then show ?thesis using R A Rd Ad b by simp
      qed
    qed
  qed
qed

lemma replace_shape:
  "replaceNonAlnumRuns t = joinHyphen (alnumRuns t) \<or>
   replaceNonAlnumRuns t = CHR ''-'' # joinHyphen (alnumRuns t) \<or>
   (alnumRuns t \<noteq> [] \<and>
     (replaceNonAlnumRuns t = joinHyphen (alnumRuns t) @ ''-'' \<or>
      replaceNonAlnumRuns t = CHR ''-'' # joinHyphen (alnumRuns t) @ ''-''))"
proof (cases t)
  case Nil
  then show ?thesis by simp
next
  case (Cons c cs)
  show ?thesis
  proof (cases "isLowerAlnum c")
    case True
    then have "t = [] \<or> isLowerAlnum (hd t)" using Cons by simp
    from replace_alnum_start[OF this] show ?thesis by blast
  next
    case False
    let ?e = "dropWhile (\<lambda>y. \<not> isLowerAlnum y) cs"
    have start: "?e = [] \<or> isLowerAlnum (hd ?e)"
      using hd_dropWhile[of "\<lambda>y. \<not> isLowerAlnum y" cs] by blast
    have R: "replaceNonAlnumRuns t = CHR ''-'' # replaceNonAlnumRuns ?e"
      using Cons False by simp
    have A: "alnumRuns t = alnumRuns ?e"
      using Cons False by (simp add: alnumRuns_dropWhile)
    from replace_alnum_start[OF start] show ?thesis
      unfolding R A by (elim disjE conjE) simp_all
  qed
qed

lemma alnumRuns_words:
  "w \<in> set (alnumRuns t) \<Longrightarrow> w \<noteq> [] \<and> (\<forall>c\<in>set w. isLowerAlnum c)"
proof (induction t rule: alnumRuns.induct)
  case 1
  then show ?case by simp
next
  case (2 c cs)
  show ?case
  proof (cases "isLowerAlnum c")
    case True
    with 2(3) have "w = c # takeWhile isLowerAlnum cs \<or> w \<in> set (alnumRuns (dropWhile isLowerAlnum cs))"
      by simp
    then show ?thesis
    proof
      assume "w = c # takeWhile isLowerAlnum cs"
      then show ?thesis using True by (auto dest: set_takeWhileD)
    next
      assume "w \<in> set (alnumRuns (dropWhile isLowerAlnum cs))"
      then show ?thesis using 2(1)[OF True] by blast
    qed
  next
    case False
    with 2(3) have "w \<in> set (alnumRuns cs)" by simp
    then show ?thesis using 2(2)[OF False] by blast
  qed
qed

lemma joinHyphen_shape:
  "ws \<noteq> [] \<Longrightarrow> \<forall>w\<in>set ws. w \<noteq> [] \<and> (\<forall>c\<in>set w. isLowerAlnum c) \<Longrightarrow>
   joinHyphen ws \<noteq> [] \<and> isLowerAlnum (hd (joinHyphen ws)) \<and> isLowerAlnum (last (joinHyphen ws))
   \<and> (\<forall>c\<in>set (joinHyphen ws). isSlugChar c)"
proof (induction ws rule: joinHyphen.induct)
  case 1
  then show ?case by simp
next
  case (2 w)
  then show ?case by (simp add: isSlugChar_def)
next
  case (3 w v ws)
  then have ih: "joinHyphen (v # ws) \<noteq> []" "isLowerAlnum (last (joinHyphen (v # ws)))"
    "\<forall>c\<in>set (joinHyphen (v # ws)). isSlugChar c"
    by simp_all
  from 3(3) have w: "w \<noteq> []" "\<forall>c\<in>set w. isLowerAlnum c" by simp_all
  then have hdw: "isLowerAlnum (hd w)" by (cases w) simp_all
  have "joinHyphen (w # v # ws) = w @ CHR ''-'' # joinHyphen (v # ws)" by simp
  then show ?case using ih w hdw by (auto simp add: isSlugChar_def hd_append)
qed

lemma last_drop_one: "xs \<noteq> [] \<Longrightarrow> drop (length xs - 1) xs = [last xs]"
  by (induction xs rule: rev_induct) simp_all

lemma joinHyphen_runs_shape:
  "alnumRuns t \<noteq> [] \<Longrightarrow>
   joinHyphen (alnumRuns t) \<noteq> [] \<and> isLowerAlnum (hd (joinHyphen (alnumRuns t))) \<and>
   isLowerAlnum (last (joinHyphen (alnumRuns t))) \<and>
   (\<forall>c\<in>set (joinHyphen (alnumRuns t)). isSlugChar c)"
  by (rule joinHyphen_shape) (simp_all add: alnumRuns_words)

lemma strip_shapes:
  assumes "J = [] \<or> (hd J \<noteq> CHR ''-'' \<and> last J \<noteq> CHR ''-'')"
  shows "stripEdgeHyphens J = J" "stripEdgeHyphens (CHR ''-'' # J) = J"
    "J \<noteq> [] \<Longrightarrow> stripEdgeHyphens (J @ ''-'') = J"
    "J \<noteq> [] \<Longrightarrow> stripEdgeHyphens (CHR ''-'' # J @ ''-'') = J"
proof -
  show "stripEdgeHyphens J = J" "stripEdgeHyphens (CHR ''-'' # J) = J"
    using assms by (cases J; simp add: stripEdgeHyphens_def)+
  show "J \<noteq> [] \<Longrightarrow> stripEdgeHyphens (J @ ''-'') = J"
    using assms by (cases J) (simp_all add: stripEdgeHyphens_def)
  show "J \<noteq> [] \<Longrightarrow> stripEdgeHyphens (CHR ''-'' # J @ ''-'') = J"
    using assms by (cases J) (simp_all add: stripEdgeHyphens_def)
qed

lemma generateSlug_runs: "generateSlug text = joinHyphen (alnumRuns (toLowerCase text))"
proof -
  let ?t = "trim (toLowerCase text)"
  let ?J = "joinHyphen (alnumRuns ?t)"
  have J: "?J = [] \<or> (hd ?J \<noteq> CHR ''-'' \<and> last ?J \<noteq> CHR ''-'')"
  proof (cases "alnumRuns ?t = []")
    case True
    then show ?thesis by simp
  next
    case False
    from joinHyphen_runs_shape[OF False] hyphen_not_alnum
    have "hd ?J \<noteq> CHR ''-''" "last ?J \<noteq> CHR ''-''" by auto
    then show ?thesis by simp
  qed
  have ne: "alnumRuns ?t \<noteq> [] \<Longrightarrow> ?J \<noteq> []"
    using joinHyphen_runs_shape[of ?t] by simp
  from replace_shape[of ?t]
  have "stripEdgeHyphens (replaceNonAlnumRuns ?t) = ?J"
  proof (elim disjE conjE)
    assume "replaceNonAlnumRuns ?t = ?J"
    then show ?thesis using strip_shapes(1)[OF J] by simp
  next
    assume "replaceNonAlnumRuns ?t = CHR ''-'' # ?J"
    then show ?thesis using strip_shapes(2)[OF J] by simp
  next
    assume "alnumRuns ?t \<noteq> []" "replaceNonAlnumRuns ?t = ?J @ ''-''"
    then show ?thesis using strip_shapes(3)[OF J] ne by simp
  next
    assume "alnumRuns ?t \<noteq> []" "replaceNonAlnumRuns ?t = CHR ''-'' # ?J @ ''-''"
    then show ?thesis using strip_shapes(4)[OF J] ne by simp
  qed
  then show ?thesis by (simp add: generateSlug_def alnumRuns_trim)
qed

lemma generateSlug_empty_iff:
  "generateSlug text = [] \<longleftrightarrow> (\<forall>c\<in>set (toLowerCase text). \<not> isLowerAlnum c)"
proof -
  have "joinHyphen (alnumRuns (toLowerCase text)) = [] \<longleftrightarrow> alnumRuns (toLowerCase text) = []"
    using joinHyphen_runs_shape[of "toLowerCase text"] by auto
  then show ?thesis by (simp add: generateSlug_runs alnumRuns_Nil_iff)
qed

lemma generateSlug_valid:
  assumes "\<exists>c\<in>set (toLowerCase text). isLowerAlnum c"
  shows "generateSlug text \<noteq> []" "list_all isSlugChar (generateSlug text)"
    "\<not> startsWith (generateSlug text) ''-''" "\<not> endsWith (generateSlug text) ''-''"
    "isValidSlug (generateSlug text)"
proof -
  let ?J = "generateSlug text"
  from assms have "alnumRuns (toLowerCase text) \<noteq> []" by (simp add: alnumRuns_Nil_iff)
  from joinHyphen_runs_shape[OF this]
  have ne: "?J \<noteq> []" and h: "isLowerAlnum (hd ?J)" and l: "isLowerAlnum (last ?J)"
    and a: "\<forall>c\<in>set ?J. isSlugChar c"
    by (simp_all add: generateSlug_runs)
  show "?J \<noteq> []" by (rule ne)
  show all: "list_all isSlugChar ?J" using a by (simp add: list_all_iff)
  show s: "\<not> startsWith ?J ''-''"
    using ne h hyphen_not_alnum by (cases ?J) (auto simp: startsWith_def)
  have "drop (length ?J - 1) ?J = [last ?J]"
    using ne last_drop_one[of ?J] by simp
  then show e: "\<not> endsWith ?J ''-''"
    using l hyphen_not_alnum by (auto simp: endsWith_def)
  show "isValidSlug ?J" using ne all s e by (simp add: isValidSlug_def)
qed

lemma generateSlug_chars: "list_all isSlugChar (generateSlug text)"
proof (cases "\<exists>c\<in>set (toLowerCase text). isLowerAlnum c")
  case True
  then show ?thesis by (rule generateSlug_valid(2))
next
  case False
  then have "generateSlug text = []" by (simp add: generateSlug_empty_iff)
  then show ?thesis by simp
qed

lemma generateSlug_no_space: "CHR '' '' \<notin> set (generateSlug text)"
proof
  assume "CHR '' '' \<in> set (generateSlug text)"
  then have "isSlugChar (CHR '' '')" using generateSlug_chars[of "text"] by (simp add: list_all_iff)
  then show False by (simp add: isSlugChar_def isLowerAlnum_def)
qed

lemma generateSlug_no_nul: "CHR 0x00 \<notin> set (generateSlug text)"
proof
  assume "CHR 0x00 \<in> set (generateSlug text)"
  then have "isSlugChar (CHR 0x00)" using generateSlug_chars[of "text"] by (simp add: list_all_iff)
  then show False by (simp add: isSlugChar_def isLowerAlnum_def)
qed

text \<open>
  C9. For every text that holds a character of \<open>[a-z0-9]\<close> after lower-casing,
  \<open>generateSlug\<close> returns a non-empty string over \<open>[a-z0-9-]\<close> that neither starts nor
  ends with a hyphen, so \<open>isValidSlug\<close> accepts it; for every text with no such character
  it returns the empty string.
\<close>

theorem generateSlug_isValidSlug:
  "((\<exists>c\<in>set (toLowerCase text). isLowerAlnum c) \<longrightarrow>
      generateSlug text \<noteq> [] \<and> list_all isSlugChar (generateSlug text) \<and>
      \<not> startsWith (generateSlug text) ''-'' \<and> \<not> endsWith (generateSlug text) ''-'' \<and>
      isValidSlug (generateSlug text)) \<and>
   (\<not> (\<exists>c\<in>set (toLowerCase text). isLowerAlnum c) \<longrightarrow> generateSlug text = [])"
  using generateSlug_valid[of "text"] generateSlug_empty_iff[of "text"] by blast

theorem generateSlug_isValidSlug_witness:
  "(\<exists>c\<in>set (toLowerCase ''Hello World!!''). isLowerAlnum c) \<and>
   isValidSlug (generateSlug ''Hello World!!'') \<and>
   \<not> (\<exists>c\<in>set (toLowerCase ''?! ?!''). isLowerAlnum c) \<and>
   generateSlug ''?! ?!'' = []"
  using generateSlug_isValidSlug[of "''Hello World!!''"] generateSlug_isValidSlug[of "''?! ?!''"]
  by (simp add: toLowerCase_def lowerChar_def isLowerAlnum_def)

section \<open>The result shape-transformer\<close>

lemma map_set_keys:
  "map fst (map_set m k v) = (if k \<in> set (map fst m) then map fst m else map fst m @ [k])"
proof (induction m)
  case Nil
  then show ?case by simp
next
  case (Cons a m)
  obtain k' v' where a: "a = (k', v')" by (cases a)
  show ?case using Cons unfolding a by (cases "k' = k") (auto split: if_splits)
qed

lemma map_of_map_set: "map_of (map_set m k v) = (map_of m)(k \<mapsto> v)"
  by (induction m) (auto simp: fun_eq_iff)

lemma map_has_keys: "map_has m k \<longleftrightarrow> k \<in> set (map fst m)"
  by (simp add: map_has_def map_of_eq_None_iff)

lemma transformStep_keys:
  "map fst (transformStep m r) =
     (if r_id r \<in> set (map fst m) then map fst m else map fst m @ [r_id r])"
  by (auto simp: transformStep_def Let_def map_get_def map_has_keys map_set_keys
      split: option.splits)

lemma transformStep_lookup:
  "map_of (transformStep m r) k =
     (if k = r_id r
      then Some (pushCategory (case map_of m k of None \<Rightarrow> newPostRecord r | Some p \<Rightarrow> p) (r_categories r))
      else map_of m k)"
  by (auto simp: transformStep_def Let_def map_get_def map_has_def map_of_map_set pushCategory_def
      split: option.splits)

lemma set_distinctInOrder: "set (distinctInOrder xs) = set xs"
  by (simp add: distinctInOrder_def)

lemma distinct_distinctInOrder: "distinct (distinctInOrder xs)"
  by (simp add: distinctInOrder_def)

lemma length_distinctInOrder: "length (distinctInOrder xs) = card (set xs)"
  by (simp add: distinctInOrder_def length_remdups_card_conv)

lemma distinctInOrder_snoc:
  "distinctInOrder (xs @ [x]) = (if x \<in> set xs then distinctInOrder xs else distinctInOrder xs @ [x])"
  by (simp add: distinctInOrder_def)

lemma fold_keys: "map fst (foldl transformStep [] rows) = distinctInOrder (map r_id rows)"
proof (induction rows rule: rev_induct)
  case Nil
  then show ?case by (simp add: distinctInOrder_def)
next
  case (snoc r rows)
  have s: "set (map fst (foldl transformStep [] rows)) = set (map r_id rows)"
    by (simp only: snoc set_distinctInOrder)
  show ?case
    by (simp only: foldl_append foldl.simps transformStep_keys distinctInOrder_snoc
        map_append list.map snoc set_distinctInOrder)
qed

lemma map_filter_snoc:
  "List.map_filter f (xs @ [x]) = List.map_filter f xs @ (case f x of None \<Rightarrow> [] | Some y \<Rightarrow> [y])"
  by (simp add: List.map_filter_def split: option.splits)

lemma pushCategory_new:
  "pushCategory (newPostRecord r) co =
     (newPostRecord r)\<lparr> w_categories := (case co of None \<Rightarrow> [] | Some c \<Rightarrow> [c]) \<rparr>"
  by (simp add: pushCategory_def newPostRecord_def split: option.splits)

lemma pushCategory_upd:
  "pushCategory (p\<lparr> w_categories := cs \<rparr>) co =
     p\<lparr> w_categories := cs @ (case co of None \<Rightarrow> [] | Some c \<Rightarrow> [c]) \<rparr>"
  by (simp add: pushCategory_def split: option.splits)

lemma fold_lookup:
  "map_of (foldl transformStep [] rows) k =
     (case rowsOf k rows of
        [] \<Rightarrow> None
      | r # _ \<Rightarrow> Some ((newPostRecord r)\<lparr> w_categories := categoriesOf k rows \<rparr>))"
proof (induction rows rule: rev_induct)
  case Nil
  then show ?case by (simp add: rowsOf_def)
next
  case (snoc r rows)
  show ?case
  proof (cases "k = r_id r")
    case False
    then have R: "rowsOf k (rows @ [r]) = rowsOf k rows"
      by (simp add: rowsOf_def)
    have C: "categoriesOf k (rows @ [r]) = categoriesOf k rows"
      by (simp only: categoriesOf_def R)
    have "map_of (foldl transformStep [] (rows @ [r])) k = map_of (foldl transformStep [] rows) k"
      using False by (simp add: transformStep_lookup)
    then show ?thesis by (simp only: R C snoc)
  next
    case True
    have R: "rowsOf k (rows @ [r]) = rowsOf k rows @ [r]"
      using True by (simp add: rowsOf_def)
    have C: "categoriesOf k (rows @ [r]) =
        categoriesOf k rows @ (case r_categories r of None \<Rightarrow> [] | Some c \<Rightarrow> [c])"
      by (simp only: categoriesOf_def R map_filter_snoc)
    have L: "map_of (foldl transformStep [] (rows @ [r])) k =
        Some (pushCategory (case map_of (foldl transformStep [] rows) k of
                None \<Rightarrow> newPostRecord r | Some p \<Rightarrow> p) (r_categories r))"
      using True by (simp add: transformStep_lookup)
    show ?thesis
    proof (cases "rowsOf k rows")
      case Nil
      then have c0: "categoriesOf k rows = []" by (simp add: categoriesOf_def List.map_filter_def)
      have m0: "map_of (foldl transformStep [] rows) k = None" using snoc Nil by simp
      show ?thesis
        unfolding L R C m0 c0 Nil by (simp add: pushCategory_new)
    next
      case (Cons r0 rest)
      have m0: "map_of (foldl transformStep [] rows) k =
          Some ((newPostRecord r0)\<lparr> w_categories := categoriesOf k rows \<rparr>)"
        using snoc Cons by simp
      show ?thesis
        unfolding L R C m0 Cons by (simp add: pushCategory_upd)
    qed
  qed
qed

lemma values_by_keys:
  "distinct (map fst m) \<Longrightarrow> map snd m = map (\<lambda>k. the (map_of m k)) (map fst m)"
proof (induction m)
  case Nil
  then show ?case by simp
next
  case (Cons a m)
  obtain k v where a: "a = (k, v)" by (cases a)
  from Cons.prems have k: "k \<notin> fst ` set m" and d: "distinct (map fst m)"
    by (simp_all add: a)
  have "map (\<lambda>x. the (map_of (a # m) x)) (map fst m) = map (\<lambda>x. the (map_of m x)) (map fst m)"
    using k by (intro map_cong refl) (auto simp: a)
  then show ?case using Cons.IH[OF d] by (simp add: a)
qed

text \<open>
  The transformer in closed form: one record per distinct post identifier, in order of
  first appearance, built from the first row of that identifier, with the categories of
  all its rows in row order.
\<close>

lemma transformPostQueryResults_eq:
  "transformPostQueryResults rows =
     map (\<lambda>k. (newPostRecord (hd (rowsOf k rows)))\<lparr> w_categories := categoriesOf k rows \<rparr>)
       (distinctInOrder (map r_id rows))"
proof -
  let ?M = "foldl transformStep [] rows"
  have d: "distinct (map fst ?M)" by (simp add: fold_keys distinct_distinctInOrder)
  have "map snd ?M = map (\<lambda>k. the (map_of ?M k)) (map fst ?M)"
    by (rule values_by_keys[OF d])
  also have "\<dots> = map (\<lambda>k. the (map_of ?M k)) (distinctInOrder (map r_id rows))"
    by (simp only: fold_keys)
  also have "\<dots> = map (\<lambda>k. (newPostRecord (hd (rowsOf k rows)))\<lparr> w_categories := categoriesOf k rows \<rparr>)
       (distinctInOrder (map r_id rows))"
  proof (rule map_cong[OF refl])
    fix k assume "k \<in> set (distinctInOrder (map r_id rows))"
    then have "k \<in> r_id ` set rows" by (simp add: set_distinctInOrder)
    then have "rowsOf k rows \<noteq> []" by (auto simp: rowsOf_def filter_empty_conv)
    then show "the (map_of ?M k) = (newPostRecord (hd (rowsOf k rows)))\<lparr> w_categories := categoriesOf k rows \<rparr>"
      by (cases "rowsOf k rows") (simp_all add: fold_lookup)
  qed
  finally show ?thesis by (simp add: transformPostQueryResults_def map_values_def)
qed

lemma transform_ids: "map w_id (transformPostQueryResults rows) = distinctInOrder (map r_id rows)"
proof -
  have "\<And>k. k \<in> set (distinctInOrder (map r_id rows)) \<Longrightarrow>
      w_id ((newPostRecord (hd (rowsOf k rows)))\<lparr> w_categories := categoriesOf k rows \<rparr>) = k"
  proof -
    fix k assume "k \<in> set (distinctInOrder (map r_id rows))"
    then have "k \<in> r_id ` set rows" by (simp add: set_distinctInOrder)
    then have ne: "rowsOf k rows \<noteq> []" by (auto simp: rowsOf_def filter_empty_conv)
    then have "hd (rowsOf k rows) \<in> set (rowsOf k rows)" by simp
    then have "r_id (hd (rowsOf k rows)) = k" by (simp add: rowsOf_def)
    then show "w_id ((newPostRecord (hd (rowsOf k rows)))\<lparr> w_categories := categoriesOf k rows \<rparr>) = k"
      by (simp add: newPostRecord_def)
  qed
  then have "map w_id (map (\<lambda>k. (newPostRecord (hd (rowsOf k rows)))\<lparr> w_categories := categoriesOf k rows \<rparr>)
       (distinctInOrder (map r_id rows))) = map (\<lambda>k. k) (distinctInOrder (map r_id rows))"
    unfolding map_map comp_def by (intro map_cong refl)
  then show ?thesis
    by (simp only: transformPostQueryResults_eq list.map_ident)
qed

lemma transform_distinct_ids: "distinct (map w_id (transformPostQueryResults rows))"
  by (simp add: transform_ids distinct_distinctInOrder)

lemma transform_length: "length (transformPostQueryResults rows) = card (r_id ` set rows)"
  by (simp add: transformPostQueryResults_eq length_distinctInOrder)

lemma transform_length_le: "length (transformPostQueryResults rows) \<le> length rows"
proof -
  have "card (r_id ` set rows) \<le> card (set rows)" by (simp add: card_image_le)
  also have "\<dots> \<le> length rows" by (rule card_length)
  finally show ?thesis by (simp add: transform_length)
qed


section \<open>The statements of the store\<close>

lemma pairOf_row [simp]:
  "pairOf \<lparr> pc_id = a, pc_postId = p, pc_categoryId = c, pc_createdAt = t \<rparr> = (p, c)"
  by (simp add: pairOf_def)

lemma number_postCategories_ok:
  "distinct vs \<Longrightarrow> set vs \<inter> set present = {} \<Longrightarrow>
   \<exists>rows. number_postCategories now vs sq present = (Inr rows, sq + int (length vs)) \<and>
          map pairOf rows = vs"
proof (induction vs arbitrary: sq present)
  case Nil
  then show ?case by simp
next
  case (Cons v vs)
  obtain p c where v: "v = (p, c)" by (cases v)
  from Cons.prems have d: "distinct vs" and n: "(p, c) \<notin> set present"
    and i: "set vs \<inter> set ((p, c) # present) = {}"
    by (auto simp: v)
  from Cons.IH[OF d i, of "sq + 1"] obtain rows
    where r: "number_postCategories now vs (sq + 1) ((p, c) # present) =
                (Inr rows, sq + 1 + int (length vs))"
      and m: "map pairOf rows = vs"
    by blast
  show ?case using n r m by (simp add: v)
qed

lemma number_postCategories_fail:
  "\<not> (distinct vs \<and> set vs \<inter> set present = {}) \<Longrightarrow>
   \<exists>sq'. number_postCategories now vs sq present = (Inl (PgError ''23505''), sq')"
proof (induction vs arbitrary: sq present)
  case Nil
  then show ?case by simp
next
  case (Cons v vs)
  obtain p c where v: "v = (p, c)" by (cases v)
  show ?case
  proof (cases "(p, c) \<in> set present")
    case True
    then show ?thesis by (simp add: v)
  next
    case False
    with Cons.prems have "\<not> (distinct vs \<and> set vs \<inter> set ((p, c) # present) = {})"
      by (auto simp: v)
    from Cons.IH[OF this, of "sq + 1"] obtain sq'
      where "number_postCategories now vs (sq + 1) ((p, c) # present) = (Inl (PgError ''23505''), sq')"
      by blast
    then show ?thesis using False by (simp add: v)
  qed
qed

lemma firstError_None: "firstError es = None \<longleftrightarrow> (\<forall>e \<in> set es. e = None)"
  by (induction es rule: firstError.induct) simp_all

lemma int4Param_None [simp]: "int4Param i = None \<longleftrightarrow> int4 i"
  by (simp add: int4Param_def)

lemma int8Param_None [simp]: "int8Param i = None \<longleftrightarrow> int8 i"
  by (simp add: int8Param_def)

lemma textParam_None [simp]: "textParam t = None \<longleftrightarrow> CHR 0x00 \<notin> set t"
  by (simp add: textParam_def)

lemma junctionParams_Cons:
  "firstError (junctionParams ((p, c) # vs)) = None \<longleftrightarrow>
     int4 p \<and> int4 c \<and> firstError (junctionParams vs) = None"
  by (cases "int4 p"; cases "int4 c") (simp_all add: junctionParams_def int4Param_def)

lemma junctionParams_None:
  "firstError (junctionParams vs) = None \<longleftrightarrow> list_all (\<lambda>(p, c). int4 p \<and> int4 c) vs"
proof (induction vs)
  case Nil
  then show ?case by (simp add: junctionParams_def)
next
  case (Cons v vs)
  obtain p c where v: "v = (p, c)" by (cases v)
  show ?case unfolding v by (simp add: junctionParams_Cons Cons)
qed

text \<open>When the multi-row insert into the junction goes through, and what it leaves.\<close>

lemma insert_postCategories_ok:
  assumes "junctionAccepted vs s"
  shows "\<exists>rows sq. insert_postCategories now vs s =
           (Inr rows, s\<lparr> post_categories_id_seq := sq, postCategories := postCategories s @ rows \<rparr>) \<and>
           map pairOf rows = vs"
proof -
  from assms have d: "distinct vs" and i: "set vs \<inter> set (map pairOf (postCategories s)) = {}"
    and f: "\<not> list_ex (\<lambda>(p, c). p \<notin> set (map p_id (posts s)) \<or> c \<notin> set (map c_id (categories s))) vs"
    and r: "firstError (junctionParams vs) = None"
    by (simp_all add: junctionAccepted_def junctionParams_None)
  from number_postCategories_ok[OF d i, of now "post_categories_id_seq s"] obtain rows
    where n: "number_postCategories now vs (post_categories_id_seq s) (map pairOf (postCategories s)) =
             (Inr rows, post_categories_id_seq s + int (length vs))"
      and m: "map pairOf rows = vs"
    by blast
  have "insert_postCategories now vs s =
          (Inr rows, s\<lparr> post_categories_id_seq := post_categories_id_seq s + int (length vs),
                       postCategories := postCategories s @ rows \<rparr>)"
    using f by (simp add: insert_postCategories_def r n)
  with m show ?thesis by blast
qed

lemma insert_postCategories_fail:
  assumes "\<not> junctionAccepted vs s"
  shows "\<exists>e sq. insert_postCategories now vs s = (Inl e, s\<lparr> post_categories_id_seq := sq \<rparr>)"
proof (cases "firstError (junctionParams vs)")
  case (Some e)
  then have "insert_postCategories now vs s = (Inl e, s\<lparr> post_categories_id_seq := post_categories_id_seq s \<rparr>)"
    by (simp add: insert_postCategories_def)
  then show ?thesis by blast
next
  case r: None
  show ?thesis
  proof (cases "distinct vs \<and> set vs \<inter> set (map pairOf (postCategories s)) = {}")
    case True
    with assms r have f: "list_ex (\<lambda>(p, c). p \<notin> set (map p_id (posts s)) \<or> c \<notin> set (map c_id (categories s))) vs"
      by (simp add: junctionAccepted_def junctionParams_None)
    from True number_postCategories_ok[of vs "map pairOf (postCategories s)" now "post_categories_id_seq s"]
    obtain rows where n: "number_postCategories now vs (post_categories_id_seq s) (map pairOf (postCategories s)) =
               (Inr rows, post_categories_id_seq s + int (length vs))"
      by blast
    have "insert_postCategories now vs s =
            (Inl (PgError ''23503''), s\<lparr> post_categories_id_seq := post_categories_id_seq s + int (length vs) \<rparr>)"
      using f by (simp add: insert_postCategories_def r n)
    then show ?thesis by blast
  next
    case False
    from number_postCategories_fail[OF False, of now "post_categories_id_seq s"] obtain sq'
      where n: "number_postCategories now vs (post_categories_id_seq s) (map pairOf (postCategories s)) =
               (Inl (PgError ''23505''), sq')"
      by blast
    have "insert_postCategories now vs s = (Inl (PgError ''23505''), s\<lparr> post_categories_id_seq := sq' \<rparr>)"
      by (simp add: insert_postCategories_def r n)
    then show ?thesis by blast
  qed
qed

text \<open>A value without spaces that is not too long is stored as it is.\<close>

lemma varchar_unchanged:
  assumes "\<not> varcharTooLong n g" and "CHR '' '' \<notin> set g"
  shows "varchar n g = g"
proof -
  have a: "\<forall>c \<in> set (drop n g). c = CHR '' ''"
    using assms(1) unfolding varcharTooLong_def list_ex_iff by blast
  have b: "set (drop n g) \<subseteq> set g" by (rule set_drop_subset)
  have "drop n g = []"
  proof (cases "drop n g")
    case Nil
    then show ?thesis .
  next
    case (Cons c cs)
    have "c \<in> set (drop n g)" unfolding Cons by simp
    then have "c = CHR '' ''" and "c \<in> set g" using a b by blast+
    then show ?thesis using assms(2) by simp
  qed
  then have "length g \<le> n" by simp
  then show ?thesis unfolding varchar_def by simp
qed

lemma varchar_short: "length g \<le> n \<Longrightarrow> varchar n g = g \<and> \<not> varcharTooLong n g"
  unfolding varchar_def varcharTooLong_def by simp

section \<open>The update of a post\<close>

lemma update_posts_refused:
  "updateRefused v i \<Longrightarrow> \<exists>e. update_posts v i s = (Inl e, s)"
  by (auto simp: update_posts_def updateRefused_def split: option.splits)

lemma update_posts_rejected:
  assumes "updateRejected v i s"
  shows "\<exists>e. update_posts v i s = (Inl e, s)"
proof (cases "updateRefused v i")
  case True
  then show ?thesis by (rule update_posts_refused)
next
  case False
  then have "firstError [textParamOpt (set_title v), textParamOpt (set_content v),
                         textParamOpt (set_slug v), int4Param i] = None"
    and "\<not> (varcharTooLongOpt 200 (set_title v) \<or> varcharTooLongOpt 250 (set_slug v))"
    by (simp_all add: updateRefused_def)
  then show ?thesis
    using assms False by (auto simp: update_posts_def updateRejected_def Let_def)
qed

lemma update_posts_accepted:
  assumes "\<not> updateRejected v i s"
  shows "update_posts v i s =
           (Inr (map (apply_post_set v) (filter (\<lambda>p. p_id p = i) (posts s))),
            s\<lparr> posts := postsAfter v i s \<rparr>)"
proof -
  from assms have "firstError [textParamOpt (set_title v), textParamOpt (set_content v),
                         textParamOpt (set_slug v), int4Param i] = None"
    and "\<not> (varcharTooLongOpt 200 (set_title v) \<or> varcharTooLongOpt 250 (set_slug v))"
    by (simp_all add: updateRejected_def updateRefused_def Let_def)
  then show ?thesis
    using assms by (simp add: update_posts_def updateRejected_def postsAfter_def Let_def)
qed

lemma accepted_int4: "\<not> updateRejected v i s \<Longrightarrow> int4 i"
  by (simp add: updateRejected_def updateRefused_def Let_def firstError_None)

lemma postFound_filter: "postFound i s \<longleftrightarrow> filter (\<lambda>p. p_id p = i) (posts s) \<noteq> []"
  by (auto simp: postFound_def filter_empty_conv)

lemma postsAfter_not_found: "\<not> postFound i s \<Longrightarrow> postsAfter v i s = posts s"
  unfolding postFound_def postsAfter_def by (rule map_idI) auto

lemma junctionValues_accepted:
  assumes "postFound i s" and "\<forall>j\<in>set (postCategories s). pc_postId j \<noteq> i" and "int4 i"
  shows "junctionAccepted (junctionValues i cs) s \<longleftrightarrow> namesCategories cs s"
proof -
  have r: "list_all (\<lambda>(p, c). int4 p \<and> int4 c) (junctionValues i cs) \<longleftrightarrow> list_all int4 cs"
    using assms(3) by (simp add: junctionValues_def list_all_iff)
  have inj: "inj_on (\<lambda>c. (i, c)) (set cs)" by (simp add: inj_on_def)
  have d: "distinct (junctionValues i cs) = distinct cs"
    by (simp add: junctionValues_def distinct_map inj)
  have n: "set (junctionValues i cs) \<inter> set (map pairOf (postCategories s)) = {}"
    using assms(2) by (auto simp: junctionValues_def pairOf_def)
  have f: "list_ex (\<lambda>(p, c). p \<notin> set (map p_id (posts s)) \<or> c \<notin> set (map c_id (categories s)))
             (junctionValues i cs) \<longleftrightarrow> \<not> set cs \<subseteq> set (map c_id (categories s))"
    using assms(1) by (auto simp: junctionValues_def list_ex_iff postFound_def)
  show ?thesis
    unfolding junctionAccepted_def namesCategories_def d n f r by (auto simp: list_all_iff)
qed


text \<open>The procedure's body in closed form: the result, the posts and the junction.\<close>

lemma update_body_rejected:
  assumes "updateRejected (update_payload now input) (ui_id input) s"
  shows "update_body now input s = (Inl (TRPCError INTERNAL_SERVER_ERROR ''Failed to update post''), s)"
proof -
  from update_posts_rejected[OF assms] obtain e
    where "update_posts (update_payload now input) (ui_id input) s = (Inl e, s)"
    by blast
  then show ?thesis by (simp add: update_body_def)
qed

lemma update_body_not_found:
  assumes "\<not> updateRejected (update_payload now input) (ui_id input) s"
    and "\<not> postFound (ui_id input) s"
  shows "update_body now input s = (Inl (TRPCError NOT_FOUND ''Post not found''), s)"
proof -
  have "filter (\<lambda>p. p_id p = ui_id input) (posts s) = []"
    using assms(2) by (simp add: postFound_filter)
  moreover have "s\<lparr> posts := postsAfter (update_payload now input) (ui_id input) s \<rparr> = s"
    using assms(2) by (simp add: postsAfter_not_found)
  ultimately show ?thesis by (simp add: update_body_def update_posts_accepted[OF assms(1)])
qed

lemma update_body_no_categories:
  assumes "\<not> updateRejected (update_payload now input) (ui_id input) s"
    and "postFound (ui_id input) s" and "ui_categoryIds input = None"
  shows "\<exists>p. update_body now input s =
           (Inr p, s\<lparr> posts := postsAfter (update_payload now input) (ui_id input) s \<rparr>)"
proof -
  obtain q qs where "filter (\<lambda>p. p_id p = ui_id input) (posts s) = q # qs"
    using assms(2) by (cases "filter (\<lambda>p. p_id p = ui_id input) (posts s)") (simp_all add: postFound_filter)
  then show ?thesis using assms(3) by (simp add: update_body_def update_posts_accepted[OF assms(1)])
qed

lemma update_body_categories:
  assumes r: "\<not> updateRejected (update_payload now input) (ui_id input) s"
    and f: "postFound (ui_id input) s" and c: "ui_categoryIds input = Some cs"
  shows "\<exists>res sq rows.
           update_body now input s =
             (res, s\<lparr> posts := postsAfter (update_payload now input) (ui_id input) s,
                      postCategories := filter (\<lambda>j. pc_postId j \<noteq> ui_id input) (postCategories s) @ rows,
                      post_categories_id_seq := sq \<rparr>) \<and>
           (if namesCategories cs s
            then (\<exists>p. res = Inr p \<and> p \<in> set (postsAfter (update_payload now input) (ui_id input) s) \<and>
                      p_id p = ui_id input) \<and>
                 map pairOf rows = junctionValues (ui_id input) cs
            else res = Inl (TRPCError INTERNAL_SERVER_ERROR ''Failed to update post'') \<and> rows = [])"
proof -
  let ?i = "ui_id input"
  let ?v = "update_payload now input"
  let ?s1 = "s\<lparr> posts := postsAfter ?v ?i s \<rparr>"
  let ?s2 = "?s1\<lparr> postCategories := filter (\<lambda>j. pc_postId j \<noteq> ?i) (postCategories ?s1) \<rparr>"
  have i4: "int4 ?i" by (rule accepted_int4[OF r])
  have del: "delete_postCategories ?i ?s1 = (Inr (), ?s2)"
    using i4 by (simp add: delete_postCategories_def int4Param_def)
  obtain q qs where q: "filter (\<lambda>p. p_id p = ?i) (posts s) = q # qs"
    using f by (cases "filter (\<lambda>p. p_id p = ?i) (posts s)") (simp_all add: postFound_filter)
  have ids: "map p_id (postsAfter ?v ?i s) = map p_id (posts s)"
    by (simp add: postsAfter_def apply_post_set_def)
  have f2: "postFound ?i ?s2"
    using f by (simp add: postFound_def ids del: set_map)
  have n2: "\<forall>j\<in>set (postCategories ?s2). pc_postId j \<noteq> ?i"
    by simp
  have acc: "junctionAccepted (junctionValues ?i cs) ?s2 \<longleftrightarrow> namesCategories cs s"
    using junctionValues_accepted[OF f2 n2 i4, of cs] by (simp add: namesCategories_def)
  have qin: "apply_post_set ?v q \<in> set (postsAfter ?v ?i s) \<and> p_id (apply_post_set ?v q) = ?i"
  proof -
    have "q \<in> set (filter (\<lambda>p. p_id p = ?i) (posts s))" by (simp add: q)
    then have "q \<in> set (posts s)" and qi: "p_id q = ?i" by simp_all
    then have "(if p_id q = ?i then apply_post_set ?v q else q) \<in> set (postsAfter ?v ?i s)"
      unfolding postsAfter_def by (intro imageI[where f = "\<lambda>p. if p_id p = ?i then apply_post_set ?v p else p", of q "set (posts s)", folded set_map])
    then show ?thesis using qi by (simp add: apply_post_set_def)
  qed
  have body: "update_body now input s =
      (if length cs > 0
       then (case insert_postCategories now (junctionValues ?i cs) ?s2 of
               (Inl e, s3) \<Rightarrow> (Inl (TRPCError INTERNAL_SERVER_ERROR ''Failed to update post''), s3)
             | (Inr _, s3) \<Rightarrow> (Inr (apply_post_set ?v q), s3))
       else (Inr (apply_post_set ?v q), ?s2))"
    using c q by (simp add: update_body_def update_posts_accepted[OF r] del)
  show ?thesis
  proof (cases "cs = []")
    case True
    then show ?thesis
      unfolding body using qin
      by (simp add: junctionValues_def namesCategories_def)
         (rule exI[of _ "post_categories_id_seq s"], simp)
  next
    case False
    show ?thesis
    proof (cases "namesCategories cs s")
      case True
      with acc have "junctionAccepted (junctionValues ?i cs) ?s2" by simp
      from insert_postCategories_ok[OF this, of now] obtain rows sq
        where "insert_postCategories now (junctionValues ?i cs) ?s2 =
                 (Inr rows, ?s2\<lparr> post_categories_id_seq := sq, postCategories := postCategories ?s2 @ rows \<rparr>)"
          and "map pairOf rows = junctionValues ?i cs"
        by blast
      then show ?thesis
        unfolding body using False True qin
        by simp (rule exI[of _ sq], rule exI[of _ rows], simp)
    next
      case nacc: False
      with acc have "\<not> junctionAccepted (junctionValues ?i cs) ?s2" by simp
      from insert_postCategories_fail[OF this, of now] obtain e sq
        where "insert_postCategories now (junctionValues ?i cs) ?s2 =
                 (Inl e, ?s2\<lparr> post_categories_id_seq := sq \<rparr>)"
        by blast
      then show ?thesis
        unfolding body using False nacc
        by simp (rule exI[of _ sq], simp)
    qed
  qed
qed

lemma update_body_cases:
  fixes now input s
  defines "v \<equiv> update_payload now input" and "i \<equiv> ui_id input"
  obtains
    (rejected) "updateRejected v i s"
      "update_body now input s = (Inl (TRPCError INTERNAL_SERVER_ERROR ''Failed to update post''), s)"
  | (not_found) "\<not> updateRejected v i s" "\<not> postFound i s"
      "update_body now input s = (Inl (TRPCError NOT_FOUND ''Post not found''), s)"
  | (plain) p where "\<not> updateRejected v i s" "postFound i s" "ui_categoryIds input = None"
      "update_body now input s = (Inr p, s\<lparr> posts := postsAfter v i s \<rparr>)"
  | (replaced) cs res sq rows where "\<not> updateRejected v i s" "postFound i s"
      "ui_categoryIds input = Some cs"
      "update_body now input s =
         (res, s\<lparr> posts := postsAfter v i s,
                  postCategories := filter (\<lambda>j. pc_postId j \<noteq> i) (postCategories s) @ rows,
                  post_categories_id_seq := sq \<rparr>)"
      "if namesCategories cs s
       then (\<exists>p. res = Inr p \<and> p \<in> set (postsAfter v i s) \<and> p_id p = i) \<and>
            map pairOf rows = junctionValues i cs
       else res = Inl (TRPCError INTERNAL_SERVER_ERROR ''Failed to update post'') \<and> rows = []"
proof (cases "updateRejected v i s")
  case True
  then show ?thesis using rejected update_body_rejected[of now input s] by (simp add: v_def i_def)
next
  case nr: False
  show ?thesis
  proof (cases "postFound i s")
    case False
    then show ?thesis
      using nr not_found update_body_not_found[of now input s] by (simp add: v_def i_def)
  next
    case f: True
    show ?thesis
    proof (cases "ui_categoryIds input")
      case None
      then show ?thesis
        using nr f plain update_body_no_categories[of now input s] by (auto simp: v_def i_def)
    next
      case (Some cs)
      from update_body_categories[OF nr[unfolded v_def i_def] f[unfolded i_def] Some]
      obtain res sq rows where
        "update_body now input s =
           (res, s\<lparr> posts := postsAfter v i s,
                    postCategories := filter (\<lambda>j. pc_postId j \<noteq> i) (postCategories s) @ rows,
                    post_categories_id_seq := sq \<rparr>)"
        "if namesCategories cs s
         then (\<exists>p. res = Inr p \<and> p \<in> set (postsAfter v i s) \<and> p_id p = i) \<and>
              map pairOf rows = junctionValues i cs
         else res = Inl (TRPCError INTERNAL_SERVER_ERROR ''Failed to update post'') \<and> rows = []"
        unfolding v_def i_def by blast
      then show ?thesis using nr f Some replaced by blast
    qed
  qed
qed







lemma apply_post_set_id [simp]: "p_id (apply_post_set v p) = p_id p"
  by (simp add: apply_post_set_def)

lemma postsAfter_ids: "map p_id (postsAfter v i s) = map p_id (posts s)"
  by (simp add: postsAfter_def)




lemma postFound_again: "map p_id (posts s') = map p_id (posts s) \<Longrightarrow> postFound i s' = postFound i s"
  by (simp add: postFound_def)

lemma update_body_keeps_junction:
  "ui_categoryIds input = None \<Longrightarrow>
   postCategories (snd (update_body now input s)) = postCategories s"
  by (cases now input s rule: update_body_cases) simp_all

lemma update_body_keeps_tables:
  "users (snd (update_body now input s)) = users s \<and>
   categories (snd (update_body now input s)) = categories s"
  by (cases now input s rule: update_body_cases) simp_all

lemma update_body_posts:
  "posts (snd (update_body now input s)) = posts s \<or>
   \<not> updateRejected (update_payload now input) (ui_id input) s \<and>
   posts (snd (update_body now input s)) = postsAfter (update_payload now input) (ui_id input) s"
  by (cases now input s rule: update_body_cases) simp_all


section \<open>The claims on the update of a post\<close>





text \<open>
  C10. The frame of an update: no row of \<open>posts\<close> is added or removed; a row changes only
  if it is the row of the input's identifier, and then only in the supplied fields, in
  \<open>updatedAt\<close> and, when a title is supplied, in the slug, which is made from the new
  title; with no title in the input every slug stays; with no category id list in the
  input the junction table stays; users and categories stay.
\<close>

theorem update_frame:
  "list_all2 (rowFrame now input) (posts s) (posts (snd (update c now input s))) \<and>
   (ui_title input = None \<longrightarrow>
      map p_slug (posts (snd (update c now input s))) = map p_slug (posts s)) \<and>
   (ui_categoryIds input = None \<longrightarrow>
      postCategories (snd (update c now input s)) = postCategories s) \<and>
   users (snd (update c now input s)) = users s \<and>
   categories (snd (update c now input s)) = categories s"
proof (cases "protectedProcedure c = None \<and> updatePostSchema input")
  case False
  have "list_all2 (rowFrame now input) (posts s) (posts s)"
    by (simp add: list_all2_same rowFrame_def)
  with False show ?thesis by (auto simp: update_def split: option.splits)
next
  case True
  then have u: "update c now input s = update_body now input s"
    by (simp add: update_def)
  from True have t: "optional titleSchema (ui_title input)" by (simp add: updatePostSchema_def)
  let ?v = "update_payload now input"
  have same: "list_all2 (rowFrame now input) (posts s) (posts s)"
    by (simp add: list_all2_same rowFrame_def)
  have row: "rowFrame now input p (if p_id p = ui_id input then apply_post_set ?v p else p)"
    if "\<not> updateRejected ?v (ui_id input) s" for p
  proof -
    have g: "varchar 250 (generateSlug x) = generateSlug x" if "ui_title input = Some x" for x
    proof -
      have "x \<noteq> []" using t that by (auto simp: optional_def titleSchema_def)
      then have "set_slug ?v = Some (generateSlug x)" using that by (simp add: update_payload_def)
      then have "\<not> varcharTooLong 250 (generateSlug x)"
        using \<open>\<not> updateRejected ?v (ui_id input) s\<close>
        by (simp add: updateRejected_def updateRefused_def Let_def varcharTooLongOpt_def)
      then show ?thesis using generateSlug_no_space by (rule varchar_unchanged)
    qed
    show ?thesis
      using t g
      by (auto simp: rowFrame_def apply_post_set_def update_payload_def optional_def titleSchema_def
          split: option.splits)
  qed
  have after: "list_all2 (rowFrame now input) (posts s) (postsAfter ?v (ui_id input) s)"
    if "\<not> updateRejected ?v (ui_id input) s"
    unfolding postsAfter_def list_all2_map2 by (rule list_all2_refl) (rule row[OF that])
  have frame: "list_all2 (rowFrame now input) (posts s) (posts (snd (update_body now input s)))"
    using update_body_posts[of now input s] same after by auto
  have slug: "map p_slug (posts (snd (update_body now input s))) = map p_slug (posts s)"
    if "ui_title input = None"
  proof -
    have "map p_slug (postsAfter ?v (ui_id input) s) = map p_slug (posts s)"
      using that by (simp add: postsAfter_def apply_post_set_def update_payload_def cong: map_cong)
    then show ?thesis using update_body_posts[of now input s] by auto
  qed
  show ?thesis
    unfolding u using frame slug update_body_keeps_junction[of input now s]
      update_body_keeps_tables[of now input s]
    by simp
qed

text \<open>
  Renaming the first post of the example store: the row gets the new title, the slug
  \<open>a-new-title\<close> and the time of the call; its content and the second post stay, and so
  do the junction rows.
\<close>

theorem update_frame_witness:
  "ui_categoryIds (setTitle 1 ''A New Title'') = None \<and>
   ui_title (setCategories 1 [3]) = None \<and>
   map p_slug (posts (snd (update signedIn 5000 (setTitle 1 ''A New Title'') exampleDb))) =
     [''a-new-title'', ''same-title''] \<and>
   postCategories (snd (update signedIn 5000 (setTitle 1 ''A New Title'') exampleDb)) =
     postCategories exampleDb \<and>
   map p_slug (posts (snd (update signedIn 5000 (setCategories 1 [3]) exampleDb))) =
     map p_slug (posts exampleDb) \<and>
   list_all2 (rowFrame 5000 (setTitle 1 ''A New Title'')) (posts exampleDb)
     (posts (snd (update signedIn 5000 (setTitle 1 ''A New Title'') exampleDb)))"
proof -
  have a: "ui_categoryIds (setTitle 1 ''A New Title'') = None" by (simp add: setTitle_def)
  have b: "ui_title (setCategories 1 [3]) = None" by (simp add: setCategories_def)
  have c: "map p_slug (posts (snd (update signedIn 5000 (setTitle 1 ''A New Title'') exampleDb))) =
     [''a-new-title'', ''same-title'']" by code_simp
  show ?thesis
    using update_frame[of 5000 "setTitle 1 ''A New Title''" exampleDb signedIn]
      update_frame[of 5000 "setCategories 1 [3]" exampleDb signedIn] a b c
    by simp
qed

section \<open>The join and the read queries\<close>

lemma joinCategory_post: "row \<in> set (joinCategory s p j) \<Longrightarrow> fst row = p"
  by (auto simp: joinCategory_def split: list.splits)

lemma joinPost_post: "row \<in> set (joinPost s p) \<Longrightarrow> fst row = p"
  by (auto simp: joinPost_def split: list.splits dest: joinCategory_post)

lemma joinedRows_post: "row \<in> set (joinedRows s) \<Longrightarrow> fst row \<in> set (posts s)"
  by (auto simp: joinedRows_def dest: joinPost_post)

lemma joinCategory_nonempty: "joinCategory s p j \<noteq> []"
  by (simp add: joinCategory_def split: list.splits)

lemma joinPost_nonempty: "joinPost s p \<noteq> []"
  by (auto simp: joinPost_def joinCategory_nonempty split: list.splits)

lemma joinedRows_every_post: "p \<in> set (posts s) \<Longrightarrow> \<exists>row \<in> set (joinedRows s). fst row = p"
proof -
  assume p: "p \<in> set (posts s)"
  obtain row where "row \<in> set (joinPost s p)"
    using joinPost_nonempty[of s p] by (cases "joinPost s p") auto
  with p show ?thesis by (auto simp: joinedRows_def dest: joinPost_post)
qed

lemma selectPostColumns_id [simp]: "r_id (selectPostColumns row) = p_id (fst row)"
  by (cases row) (simp add: selectPostColumns_def)

lemma selectPostColumns_createdAt [simp]:
  "r_createdAt (selectPostColumns row) = p_createdAt (fst row)"
  by (cases row) (simp add: selectPostColumns_def)

lemma holds_slug: "holds (Eq_posts_slug g) row \<longleftrightarrow> p_slug (fst row) = g"
  by (cases row) simp

text \<open>\<open>getBySlug\<close> answers \<open>NOT_FOUND\<close> exactly when no post has the slug.\<close>

lemma getBySlug_not_found:
  assumes "g \<noteq> []" and "CHR 0x00 \<notin> set g"
  shows "getBySlug s g = Inl (TRPCError NOT_FOUND ''Post not found'') \<longleftrightarrow>
           g \<notin> set (map p_slug (posts s))"
proof -
  have res: "getBySlug_results s g = [] \<longleftrightarrow> g \<notin> set (map p_slug (posts s))"
  proof
    assume e: "getBySlug_results s g = []"
    show "g \<notin> set (map p_slug (posts s))"
    proof
      assume "g \<in> set (map p_slug (posts s))"
      then obtain p where "p \<in> set (posts s)" "p_slug p = g" by auto
      with joinedRows_every_post[of p s] obtain row
        where "row \<in> set (joinedRows s)" "holds (Eq_posts_slug g) row"
        by (auto simp: holds_slug)
      then have "filter (holds (Eq_posts_slug g)) (joinedRows s) \<noteq> []"
        by (auto simp: filter_empty_conv)
      with e show False by (simp add: getBySlug_results_def whereRows_def)
    qed
  next
    assume n: "g \<notin> set (map p_slug (posts s))"
    have "filter (holds (Eq_posts_slug g)) (joinedRows s) = []"
      unfolding filter_empty_conv
    proof
      fix row assume "row \<in> set (joinedRows s)"
      from joinedRows_post[OF this] n show "\<not> holds (Eq_posts_slug g) row"
        by (auto simp: holds_slug)
    qed
    then show "getBySlug_results s g = []"
      by (simp add: getBySlug_results_def whereRows_def)
  qed
  have ne: "getBySlug_results s g \<noteq> [] \<Longrightarrow> transformPostQueryResults (getBySlug_results s g) \<noteq> []"
  proof -
    assume "getBySlug_results s g \<noteq> []"
    then have "card (r_id ` set (getBySlug_results s g)) \<noteq> 0" by simp
    then show ?thesis by (metis transform_length length_0_conv)
  qed
  have q: "getBySlug_query s g = Inr (getBySlug_results s g)"
    using assms(2) by (simp add: getBySlug_query_def whereParam_def textParam_def)
  show ?thesis
    using assms(1) res ne
    by (auto simp: getBySlug_def q getPostBySlugSchema_def Suc_le_eq split: list.splits)
qed

text \<open>The result of \<open>getBySlug\<close> is never \<open>undefined\<close>: rows give a post.\<close>

lemma getBySlug_defined: "getBySlug s g \<noteq> Inr None"
proof
  assume a: "getBySlug s g = Inr None"
  then obtain results where r: "getBySlug_query s g = Inr results" and n: "results \<noteq> []"
    and t: "transformPostQueryResults results = []"
    by (auto simp: getBySlug_def split: if_splits sum.splits list.splits)
  from n have "card (r_id ` set results) \<noteq> 0" by simp
  then have "transformPostQueryResults results \<noteq> []" by (metis transform_length length_0_conv)
  with t show False by simp
qed

section \<open>The claim on the deletion of a post\<close>

lemma delete_body_out_of_range:
  "\<not> int4 i \<Longrightarrow>
   delete_body i s = (Inl (TRPCError INTERNAL_SERVER_ERROR ''Failed to delete post''), s)"
  by (simp add: delete_body_def delete_posts_def int4Param_def)

lemma delete_body_not_found:
  "int4 i \<Longrightarrow> \<not> postFound i s \<Longrightarrow>
   delete_body i s = (Inl (TRPCError NOT_FOUND ''Post not found''), s)"
proof -
  assume r: "int4 i" and n: "\<not> postFound i s"
  then have m: "filter (\<lambda>p. p_id p = i) (posts s) = []" by (simp add: postFound_filter)
  from n have k: "filter (\<lambda>p. p_id p \<noteq> i) (posts s) = posts s"
    by (auto simp: postFound_def filter_id_conv)
  show ?thesis using r by (simp add: delete_body_def delete_posts_def int4Param_def m k)
qed

lemma delete_body_found:
  assumes "postFound i s" and "int4 i"
  shows "\<exists>p. delete_body i s =
           (Inr p, s\<lparr> posts := filter (\<lambda>q. p_id q \<noteq> i) (posts s),
                      postCategories := filter (\<lambda>j. pc_postId j \<noteq> i) (postCategories s) \<rparr>) \<and>
           p \<in> set (posts s) \<and> p_id p = i"
proof -
  obtain q qs where m: "filter (\<lambda>p. p_id p = i) (posts s) = q # qs"
    using assms by (cases "filter (\<lambda>p. p_id p = i) (posts s)") (simp_all add: postFound_filter)
  then have "q \<in> set (filter (\<lambda>p. p_id p = i) (posts s))" by simp
  then have q: "q \<in> set (posts s)" "p_id q = i" by simp_all
  have "set (map p_id (q # qs)) = {i}"
  proof -
    have "\<forall>x\<in>set (q # qs). p_id x = i" unfolding m[symmetric] by simp
    then show ?thesis by auto
  qed
  then have "filter (\<lambda>j. pc_postId j \<notin> set (map p_id (q # qs))) (postCategories s) =
             filter (\<lambda>j. pc_postId j \<noteq> i) (postCategories s)"
    by (simp only: singleton_iff)
  then show ?thesis using q assms(2) by (simp add: delete_body_def delete_posts_def int4Param_def m)
qed

lemma slug_gone:
  assumes "distinct (map p_slug (posts s))" and "p \<in> set (posts s)"
  shows "p_slug p \<notin> set (map p_slug (filter (\<lambda>q. p_id q \<noteq> p_id p) (posts s)))"
proof
  assume "p_slug p \<in> set (map p_slug (filter (\<lambda>q. p_id q \<noteq> p_id p) (posts s)))"
  then obtain q where q: "q \<in> set (posts s)" "p_id q \<noteq> p_id p" "p_slug q = p_slug p" by auto
  from assms(1) have "inj_on p_slug (set (posts s))" by (simp add: distinct_map)
  with q(1,3) assms(2) have "q = p" by (auto dest: inj_onD)
  with q(2) show False by simp
qed

text \<open>
  C7, as the code has it. For a signed-in caller and an identifier the input schema
  accepts: an identifier beyond the range of the column (a 32-bit integer) is refused by
  the engine, the deletion answers \<open>INTERNAL_SERVER_ERROR\<close> and the store is as it was.
  For an identifier of the column's type: when no post has it the deletion answers
  \<open>NOT_FOUND\<close> and leaves the store as it was; otherwise it returns a post of the store
  with that identifier, the store loses exactly the posts with the identifier and the
  junction rows of that post, and in a store whose slugs are distinct (the unique index),
  non-empty (the check constraint) and text (no character 0) a fetch by the former slug
  answers \<open>NOT_FOUND\<close>.
\<close>

theorem delete_post:
  assumes "protectedProcedure c = None" and "idSchema i"
  shows "(\<not> int4 i \<longrightarrow>
            delete c i s = (Inl (TRPCError INTERNAL_SERVER_ERROR ''Failed to delete post''), s)) \<and>
         (int4 i \<and> \<not> postFound i s \<longrightarrow>
            delete c i s = (Inl (TRPCError NOT_FOUND ''Post not found''), s)) \<and>
         (int4 i \<and> postFound i s \<longrightarrow>
            (\<exists>p. delete c i s =
                   (Inr p, s\<lparr> posts := filter (\<lambda>q. p_id q \<noteq> i) (posts s),
                              postCategories := filter (\<lambda>j. pc_postId j \<noteq> i) (postCategories s) \<rparr>) \<and>
                 p \<in> set (posts s) \<and> p_id p = i \<and>
                 categoryIdsOf i (snd (delete c i s)) = [] \<and>
                 (distinct (map p_slug (posts s)) \<and> p_slug p \<noteq> [] \<and> CHR 0x00 \<notin> set (p_slug p) \<longrightarrow>
                    getBySlug (snd (delete c i s)) (p_slug p) =
                      Inl (TRPCError NOT_FOUND ''Post not found''))))"
proof -
  have d: "delete c i s = delete_body i s" using assms by (simp add: delete_def)
  show ?thesis
  proof (cases "int4 i")
    case False
    then show ?thesis by (simp add: d delete_body_out_of_range)
  next
    case r: True
    show ?thesis
    proof (cases "postFound i s")
      case False
      then show ?thesis using r by (simp add: d delete_body_not_found)
    next
      case True
      from delete_body_found[OF True r] obtain p
        where b: "delete_body i s =
                    (Inr p, s\<lparr> posts := filter (\<lambda>q. p_id q \<noteq> i) (posts s),
                               postCategories := filter (\<lambda>j. pc_postId j \<noteq> i) (postCategories s) \<rparr>)"
          and p: "p \<in> set (posts s)" "p_id p = i"
        by blast
      have j: "categoryIdsOf i (snd (delete_body i s)) = []"
        by (simp add: b categoryIdsOf_def filter_empty_conv)
      have g: "getBySlug (snd (delete_body i s)) (p_slug p) = Inl (TRPCError NOT_FOUND ''Post not found'')"
        if "distinct (map p_slug (posts s))" "p_slug p \<noteq> []" "CHR 0x00 \<notin> set (p_slug p)"
      proof -
        have "p_slug p \<notin> set (map p_slug (posts (snd (delete_body i s))))"
          using slug_gone[OF that(1) p(1)] p(2) by (simp add: b)
        then show ?thesis using getBySlug_not_found[OF that(2,3)] by blast
      qed
      show ?thesis using True r b p j g unfolding d by auto
    qed
  qed
qed

text \<open>
  Deleting the first post of the example store, then fetching \<open>my-first-post\<close>; deleting
  a post the store does not have; deleting by an identifier beyond the column's range.
\<close>

theorem delete_post_witness:
  "protectedProcedure signedIn = None \<and> idSchema 1 \<and> idSchema 7 \<and> idSchema 2147483648 \<and>
   int4 1 \<and> int4 7 \<and> \<not> int4 2147483648 \<and>
   postFound 1 exampleDb \<and> \<not> postFound 7 exampleDb \<and>
   distinct (map p_slug (posts exampleDb)) \<and>
   delete signedIn 2147483648 exampleDb =
     (Inl (TRPCError INTERNAL_SERVER_ERROR ''Failed to delete post''), exampleDb) \<and>
   delete signedIn 7 exampleDb = (Inl (TRPCError NOT_FOUND ''Post not found''), exampleDb) \<and>
   fst (delete signedIn 1 exampleDb) = Inr firstPost \<and>
   map p_id (posts (snd (delete signedIn 1 exampleDb))) = [2] \<and>
   postCategories (snd (delete signedIn 1 exampleDb)) = [] \<and>
   getBySlug (snd (delete signedIn 1 exampleDb)) ''my-first-post'' =
     Inl (TRPCError NOT_FOUND ''Post not found'')"
proof -
  have a: "protectedProcedure signedIn = None" by code_simp
  have b: "idSchema 1" "idSchema 7" "idSchema 2147483648" by (simp_all add: idSchema_def)
  have r: "int4 1" "int4 7" "\<not> int4 2147483648" by (simp_all add: int4_def)
  have f: "postFound 1 exampleDb" "\<not> postFound 7 exampleDb" by code_simp+
  have u: "distinct (map p_slug (posts exampleDb))" by code_simp
  have fp: "fst (delete signedIn 1 exampleDb) = Inr firstPost" by code_simp
  have k: "map p_id (posts (snd (delete signedIn 1 exampleDb))) = [2]" by code_simp
  have l: "postCategories (snd (delete signedIn 1 exampleDb)) = []" by code_simp
  have sl: "p_slug firstPost = ''my-first-post''" by (simp add: firstPost_def examplePost_def)
  from delete_post[OF a b(3), of exampleDb] r(3)
  have o: "delete signedIn 2147483648 exampleDb =
     (Inl (TRPCError INTERNAL_SERVER_ERROR ''Failed to delete post''), exampleDb)"
    by simp
  from delete_post[OF a b(2), of exampleDb] f(2) r(2)
  have n: "delete signedIn 7 exampleDb = (Inl (TRPCError NOT_FOUND ''Post not found''), exampleDb)"
    by simp
  from delete_post[OF a b(1), of exampleDb] f(1) r(1) u fp sl
  have g: "getBySlug (snd (delete signedIn 1 exampleDb)) ''my-first-post'' =
     Inl (TRPCError NOT_FOUND ''Post not found'')"
    by auto
  show ?thesis using a b r f u o n fp k l g by simp
qed

text \<open>
  C7 as stated fails for an identifier no post can have: 2147483648 is a positive integer,
  so the input schema accepts it, but it is no value of the column; the deletion does not
  answer \<open>NOT_FOUND\<close> but \<open>INTERNAL_SERVER_ERROR\<close>.
\<close>

theorem delete_beyond_int4_counterexample:
  "protectedProcedure signedIn = None \<and> idSchema 2147483648 \<and>
   \<not> postFound 2147483648 exampleDb \<and>
   fst (delete signedIn 2147483648 exampleDb) =
     Inl (TRPCError INTERNAL_SERVER_ERROR ''Failed to delete post'') \<and>
   fst (delete signedIn 2147483648 exampleDb) \<noteq> Inl (TRPCError NOT_FOUND ''Post not found'')"
proof -
  have a: "protectedProcedure signedIn = None" by code_simp
  have b: "idSchema 2147483648" by (simp add: idSchema_def)
  have c: "\<not> postFound 2147483648 exampleDb" by code_simp
  have d: "fst (delete signedIn 2147483648 exampleDb) =
     Inl (TRPCError INTERNAL_SERVER_ERROR ''Failed to delete post'')" by code_simp
  show ?thesis using a b c d by simp
qed

section \<open>The claims on the list of posts\<close>

lemma first_rows_snoc:
  "map (\<lambda>k. hd (rowsOf k (rows @ [r]))) (distinctInOrder (map r_id (rows @ [r]))) =
     (if r_id r \<in> r_id ` set rows
      then map (\<lambda>k. hd (rowsOf k rows)) (distinctInOrder (map r_id rows))
      else map (\<lambda>k. hd (rowsOf k rows)) (distinctInOrder (map r_id rows)) @ [r])"
proof -
  have old: "map (\<lambda>k. hd (rowsOf k (rows @ [r]))) (distinctInOrder (map r_id rows)) =
             map (\<lambda>k. hd (rowsOf k rows)) (distinctInOrder (map r_id rows))"
  proof (rule map_cong[OF refl])
    fix k assume "k \<in> set (distinctInOrder (map r_id rows))"
    then have "k \<in> r_id ` set rows" by (simp add: set_distinctInOrder)
    then have "rowsOf k rows \<noteq> []" by (auto simp: rowsOf_def filter_empty_conv)
    then show "hd (rowsOf k (rows @ [r])) = hd (rowsOf k rows)" by (simp add: rowsOf_def)
  qed
  have new: "r_id r \<notin> r_id ` set rows \<Longrightarrow> hd (rowsOf (r_id r) (rows @ [r])) = r"
  proof -
    assume "r_id r \<notin> r_id ` set rows"
    then have "\<forall>x\<in>set rows. r_id x \<noteq> r_id r" by (metis imageI)
    then have "rowsOf (r_id r) rows = []" by (simp add: rowsOf_def filter_empty_conv)
    then show ?thesis by (simp add: rowsOf_def)
  qed
  show ?thesis
    using old new by (simp add: distinctInOrder_snoc del: set_map) (simp add: image_iff)
qed

lemma first_rows_subset:
  "set (map (\<lambda>k. hd (rowsOf k rows)) (distinctInOrder (map r_id rows))) \<subseteq> set rows"
proof
  fix x assume "x \<in> set (map (\<lambda>k. hd (rowsOf k rows)) (distinctInOrder (map r_id rows)))"
  then obtain k where k: "k \<in> r_id ` set rows" and x: "x = hd (rowsOf k rows)"
    by (auto simp: set_distinctInOrder)
  from k have "rowsOf k rows \<noteq> []" by (auto simp: rowsOf_def filter_empty_conv)
  then have "hd (rowsOf k rows) \<in> set (rowsOf k rows)" by simp
  then show "x \<in> set rows" by (simp add: x rowsOf_def)
qed

text \<open>The first rows of the posts stand in the order of the rows.\<close>

lemma first_rows_sorted:
  "sorted_wrt P rows \<Longrightarrow>
   sorted_wrt P (map (\<lambda>k. hd (rowsOf k rows)) (distinctInOrder (map r_id rows)))"
proof (induction rows rule: rev_induct)
  case Nil
  then show ?case by (simp add: distinctInOrder_def)
next
  case (snoc r rows)
  from snoc.prems have s: "sorted_wrt P rows" and l: "\<forall>x\<in>set rows. P x r"
    by (simp_all add: sorted_wrt_append)
  have ih: "sorted_wrt P (map (\<lambda>k. hd (rowsOf k rows)) (distinctInOrder (map r_id rows)))"
    by (rule snoc.IH[OF s])
  have "\<forall>x\<in>set (map (\<lambda>k. hd (rowsOf k rows)) (distinctInOrder (map r_id rows))). P x r"
    using first_rows_subset[of rows] l by blast
  with ih show ?case
    unfolding first_rows_snoc by (simp add: sorted_wrt_append)
qed

lemma transform_first_rows:
  "map w_createdAt (transformPostQueryResults rows) =
     map r_createdAt (map (\<lambda>k. hd (rowsOf k rows)) (distinctInOrder (map r_id rows)))"
  by (simp add: transformPostQueryResults_eq newPostRecord_def comp_def)

lemma transform_sorted:
  assumes "sorted_wrt (\<lambda>a b. r_createdAt a \<ge> r_createdAt b) rows"
  shows "sorted_wrt (\<lambda>a b. w_createdAt a \<ge> w_createdAt b) (transformPostQueryResults rows)"
proof -
  from first_rows_sorted[OF assms]
  have "sorted_wrt (\<lambda>x y. x \<ge> y)
          (map r_createdAt (map (\<lambda>k. hd (rowsOf k rows)) (distinctInOrder (map r_id rows))))"
    by (simp only: sorted_wrt_map)
  then have "sorted_wrt (\<lambda>x y. x \<ge> y) (map w_createdAt (transformPostQueryResults rows))"
    by (simp only: transform_first_rows)
  then show ?thesis by (simp only: sorted_wrt_map)
qed

lemma orderByCreatedAtDesc_sorted:
  "sorted_wrt (\<lambda>a b. p_createdAt (fst a) \<ge> p_createdAt (fst b)) (orderByCreatedAtDesc rows)"
proof -
  let ?key = "\<lambda>(p, jo, co). - p_createdAt (p :: post)"
  have "sorted (map ?key (sort_key ?key rows))" by (rule sorted_sort_key)
  then have k: "sorted_wrt (\<lambda>a b. ?key a \<le> ?key b) (sort_key ?key rows)"
    by (simp only: sorted_wrt_map)
  have "sorted_wrt (\<lambda>a b. p_createdAt (fst a) \<ge> p_createdAt (fst b)) (sort_key ?key rows)"
    by (rule sorted_wrt_mono_rel[OF _ k]) (auto split: prod.splits)
  then show ?thesis by (simp only: orderByCreatedAtDesc_def)
qed

lemma getAll_results_sorted:
  "sorted_wrt (\<lambda>a b. r_createdAt a \<ge> r_createdAt b) (getAll_results s input)"
proof -
  have "sorted_wrt (\<lambda>a b. p_createdAt (fst a) \<ge> p_createdAt (fst b))
          (take (limitOf input) (drop (offsetOf input) (getAll_ordered s input)))"
    unfolding getAll_ordered_def
    by (intro sorted_wrt_take sorted_wrt_drop orderByCreatedAtDesc_sorted)
  then show ?thesis by (simp add: getAll_results_def sorted_wrt_map)
qed

text \<open>
  When the query of \<open>getAll\<close> raises: a search string that is no text, a category
  identifier beyond the column's type, an offset beyond \<open>bigint\<close>. \<open>getAll\<close> then answers
  \<open>INTERNAL_SERVER_ERROR\<close>.
\<close>

lemma getAll_params_None:
  assumes "postFiltersSchema input"
  shows "getAll_params input = None \<longleftrightarrow>
           (\<forall>q. f_search input = Some q \<longrightarrow> CHR 0x00 \<notin> set q) \<and>
           (\<forall>k. f_categoryId input = Some k \<longrightarrow> int4 k) \<and>
           (\<forall>k. f_offset input = Some k \<longrightarrow> int8 k)"
proof -
  have l: "int8 (case f_limit input of None \<Rightarrow> 10 | Some l \<Rightarrow> l)"
    using assms by (auto simp: postFiltersSchema_def optional_def int8_def split: option.splits)
  have z: "f_categoryId input \<noteq> Some 0"
    using assms by (auto simp: postFiltersSchema_def optional_def idSchema_def)
  have w: "whereParam (whereOf (getAll_conditions input)) = None \<longleftrightarrow>
             (\<forall>q. f_search input = Some q \<longrightarrow> CHR 0x00 \<notin> set q) \<and>
             (\<forall>k. f_categoryId input = Some k \<longrightarrow> int4 k)"
    using z
    by (cases "f_published input"; cases "f_search input"; cases "f_categoryId input")
       (auto simp: whereParam_def whereOf_def getAll_conditions_def textParam_def int4Param_def)
  have o: "int8 (case f_offset input of None \<Rightarrow> 0 | Some k \<Rightarrow> k) \<longleftrightarrow>
             (\<forall>k. f_offset input = Some k \<longrightarrow> int8 k)"
    by (cases "f_offset input") (simp_all add: int8_def)
  show ?thesis
    unfolding getAll_params_def firstError_None using l w o by (simp add: int8Param_def)
qed

lemma getAll_raises:
  "postFiltersSchema input \<Longrightarrow> getAll_params input \<noteq> None \<Longrightarrow>
   getAll s input = Inl (TRPCError INTERNAL_SERVER_ERROR ''Failed to fetch posts'')"
  by (auto simp: getAll_def getAll_query_def)

text \<open>
  What holds of \<open>getAll\<close> on every valid input whose query does not raise: it returns a
  list of posts with at most \<open>limit\<close> entries and distinct identifiers, ordered descending
  by creation time. The entries that \<open>offset\<close> skips and \<open>limit\<close> bounds are the rows of
  the filtered join in descending order of creation time: the posts returned are those of
  the rows at the positions \<open>offset\<close> to \<open>offset + limit - 1\<close>, in order of first
  appearance.
\<close>

lemma getAll_rows:
  assumes "postFiltersSchema input" and "getAll_params input = None"
  shows "\<exists>ps. getAll s input = Inr ps \<and>
           1 \<le> limitOf input \<and> limitOf input \<le> 100 \<and>
           length ps \<le> limitOf input \<and>
           distinct (map w_id ps) \<and>
           map w_id ps =
             distinctInOrder (map (\<lambda>row. p_id (fst row))
               (take (limitOf input) (drop (offsetOf input) (getAll_ordered s input)))) \<and>
           sorted_wrt (\<lambda>a b. w_createdAt a \<ge> w_createdAt b) ps \<and>
           sorted_wrt (\<lambda>a b. p_createdAt (fst a) \<ge> p_createdAt (fst b)) (getAll_ordered s input) \<and>
           set (getAll_ordered s input) =
             set (whereRows (whereOf (getAll_conditions input)) (joinedRows s)) \<and>
           length (getAll_ordered s input) =
             length (whereRows (whereOf (getAll_conditions input)) (joinedRows s))"
proof -
  let ?ps = "transformPostQueryResults (getAll_results s input)"
  have g: "getAll s input = Inr ?ps" using assms by (simp add: getAll_def getAll_query_def)
  have lim: "1 \<le> limitOf input \<and> limitOf input \<le> 100"
    using assms(1) by (auto simp: postFiltersSchema_def optional_def limitOf_def split: option.splits)
  have "length ?ps \<le> length (getAll_results s input)" by (rule transform_length_le)
  also have "\<dots> \<le> limitOf input" by (simp add: getAll_results_def)
  finally have len: "length ?ps \<le> limitOf input" .
  have ids: "map w_id ?ps =
      distinctInOrder (map (\<lambda>row. p_id (fst row))
        (take (limitOf input) (drop (offsetOf input) (getAll_ordered s input))))"
    by (simp add: transform_ids getAll_results_def comp_def)
  have srt: "sorted_wrt (\<lambda>a b. w_createdAt a \<ge> w_createdAt b) ?ps"
    by (rule transform_sorted[OF getAll_results_sorted])
  have ord: "sorted_wrt (\<lambda>a b. p_createdAt (fst a) \<ge> p_createdAt (fst b)) (getAll_ordered s input)"
    unfolding getAll_ordered_def by (rule orderByCreatedAtDesc_sorted)
  have perm: "set (getAll_ordered s input) =
             set (whereRows (whereOf (getAll_conditions input)) (joinedRows s))"
    "length (getAll_ordered s input) =
             length (whereRows (whereOf (getAll_conditions input)) (joinedRows s))"
    by (simp_all add: getAll_ordered_def orderByCreatedAtDesc_def)
  show ?thesis
    using g lim len ids srt ord perm transform_distinct_ids[of "getAll_results s input"]
    by blast
qed

text \<open>
  The boundary case of the specification on the example store: \<open>limit = 1\<close>, \<open>offset = 0\<close>
  returns one post, the most recently created.
\<close>

lemma getAll_first_page:
  "(case getAll exampleDb (noFilters\<lparr> f_limit := Some 1 \<rparr>) of
      Inr ps \<Rightarrow> map w_id ps = [2] | Inl e \<Rightarrow> False)"
  by code_simp

text \<open>A category identifier beyond the column's type, which the schema accepts.\<close>

lemma getAll_on_large_categoryId:
  "postFiltersSchema (noFilters\<lparr> f_categoryId := Some 2147483648 \<rparr>) \<and>
   getAll exampleDb (noFilters\<lparr> f_categoryId := Some 2147483648 \<rparr>) =
     Inl (TRPCError INTERNAL_SERVER_ERROR ''Failed to fetch posts'')"
proof -
  have a: "postFiltersSchema (noFilters\<lparr> f_categoryId := Some 2147483648 \<rparr>)"
    by (simp add: postFiltersSchema_def noFilters_def optional_def idSchema_def)
  have b: "getAll exampleDb (noFilters\<lparr> f_categoryId := Some 2147483648 \<rparr>) =
     Inl (TRPCError INTERNAL_SERVER_ERROR ''Failed to fetch posts'')"
    by code_simp
  show ?thesis using a b by simp
qed

text \<open>
  C3. \<open>getAll\<close> applies \<open>limit\<close> and \<open>offset\<close> to the rows of the join, one row per post
  and category, and not to the posts. The example store has two posts; the older one,
  post 1, is in two categories and so has two rows. With \<open>limit = 1\<close>: \<open>offset = 0\<close>
  returns post 2, \<open>offset = 1\<close> returns post 1 with its first category only, and
  \<open>offset = 2\<close>, which skips as many entries as there are posts, returns post 1 again,
  with its second category only. So \<open>offset\<close> does not skip that many entries of the
  list of posts. (The pages of the client count posts: it asks for
  \<open>offset = (currentPage - 1) * postsPerPage\<close> with \<open>limit = postsPerPage\<close>.)
\<close>

theorem getAll_pages_over_rows:
  "postFiltersSchema (noFilters\<lparr> f_limit := Some 1, f_offset := Some 2 \<rparr>) \<and>
   map p_id (posts exampleDb) = [1, 2] \<and>
   categoryIdsOf 1 exampleDb = [1, 2] \<and>
   (case getAll exampleDb (noFilters\<lparr> f_limit := Some 1, f_offset := Some 0 \<rparr>) of
      Inr ps \<Rightarrow> map (\<lambda>p. (w_id p, map c_id (w_categories p))) ps = [(2, [])]
    | Inl e \<Rightarrow> False) \<and>
   (case getAll exampleDb (noFilters\<lparr> f_limit := Some 1, f_offset := Some 1 \<rparr>) of
      Inr ps \<Rightarrow> map (\<lambda>p. (w_id p, map c_id (w_categories p))) ps = [(1, [1])]
    | Inl e \<Rightarrow> False) \<and>
   (case getAll exampleDb (noFilters\<lparr> f_limit := Some 1, f_offset := Some 2 \<rparr>) of
      Inr ps \<Rightarrow> map (\<lambda>p. (w_id p, map c_id (w_categories p))) ps = [(1, [2])]
    | Inl e \<Rightarrow> False)"
proof -
  have a: "postFiltersSchema (noFilters\<lparr> f_limit := Some 1, f_offset := Some 2 \<rparr>)"
    by (simp add: postFiltersSchema_def noFilters_def optional_def)
  have b: "map p_id (posts exampleDb) = [1, 2]" by code_simp
  have c: "categoryIdsOf 1 exampleDb = [1, 2]" by code_simp
  have d: "case getAll exampleDb (noFilters\<lparr> f_limit := Some 1, f_offset := Some 0 \<rparr>) of
      Inr ps \<Rightarrow> map (\<lambda>p. (w_id p, map c_id (w_categories p))) ps = [(2, [])]
    | Inl e \<Rightarrow> False" by code_simp
  have e: "case getAll exampleDb (noFilters\<lparr> f_limit := Some 1, f_offset := Some 1 \<rparr>) of
      Inr ps \<Rightarrow> map (\<lambda>p. (w_id p, map c_id (w_categories p))) ps = [(1, [1])]
    | Inl e \<Rightarrow> False" by code_simp
  have f: "case getAll exampleDb (noFilters\<lparr> f_limit := Some 1, f_offset := Some 2 \<rparr>) of
      Inr ps \<Rightarrow> map (\<lambda>p. (w_id p, map c_id (w_categories p))) ps = [(1, [2])]
    | Inl e \<Rightarrow> False" by code_simp
  show ?thesis using a b c d e f by simp
qed

text \<open>What the conditions of \<open>getAll\<close> are, and that they are joined by \<open>and\<close>.\<close>

lemma getAll_conditions_length:
  "length (getAll_conditions input) =
     (if f_published input \<noteq> None then 1 else 0) +
     (if f_search input \<noteq> None \<and> f_search input \<noteq> Some [] then 1 else 0) +
     (if f_categoryId input \<noteq> None \<and> f_categoryId input \<noteq> Some 0 then 1 else 0)"
  by (simp add: getAll_conditions_def split: option.splits)

lemma getAll_where:
  "row \<in> set (whereRows (whereOf (getAll_conditions input)) rows) \<longleftrightarrow>
     row \<in> set rows \<and>
     (\<forall>b. f_published input = Some b \<longrightarrow> holds (Eq_posts_published b) row) \<and>
     (\<forall>q. f_search input = Some q \<longrightarrow> q \<noteq> [] \<longrightarrow> holds (Like_posts_title (''%'' @ q @ ''%'')) row) \<and>
     (\<forall>k. f_categoryId input = Some k \<longrightarrow> k \<noteq> 0 \<longrightarrow> holds (Eq_postCategories_categoryId k) row)"
  by (auto simp: whereRows_def whereOf_def getAll_conditions_def split: option.splits)

text \<open>The author identifier of the input changes nothing but the validation.\<close>

lemma getAll_results_authorId:
  "getAll_results s (input\<lparr> f_authorId := a \<rparr>) = getAll_results s input"
  by (simp add: getAll_results_def getAll_ordered_def getAll_conditions_def limitOf_def offsetOf_def)

lemma getAll_query_authorId:
  "getAll_query s (input\<lparr> f_authorId := a \<rparr>) = getAll_query s input"
proof -
  have "getAll_params (input\<lparr> f_authorId := a \<rparr>) = getAll_params input"
    by (simp add: getAll_params_def getAll_conditions_def)
  then show ?thesis by (simp only: getAll_query_def getAll_results_authorId)
qed

lemma getAll_authorId:
  "postFiltersSchema input \<Longrightarrow> optional idSchema a \<Longrightarrow>
   getAll s (input\<lparr> f_authorId := a \<rparr>) = getAll s input"
  by (simp add: getAll_def getAll_query_authorId postFiltersSchema_def)

text \<open>
  C2. \<open>getAll\<close> pushes one condition for a present \<open>published\<close>, one for a non-empty
  \<open>search\<close> and one for a \<open>categoryId\<close>, joined by \<open>and\<close>, but it never reads
  \<open>authorId\<close>: on the example store the filter \<open>authorId = 1\<close> pushes no condition and
  the post of author 2 is returned with the post of author 1.
  (\<open>PostQueries.getPostsWithDetails\<close> in src/lib/db-utils.ts pushes
  \<open>eq(posts.authorId, authorId)\<close>.)
\<close>

theorem getAll_ignores_authorId:
  "postFiltersSchema (noFilters\<lparr> f_authorId := Some 1 \<rparr>) \<and>
   getAll_conditions (noFilters\<lparr> f_authorId := Some 1 \<rparr>) = [] \<and>
   (case getAll exampleDb (noFilters\<lparr> f_authorId := Some 1 \<rparr>) of
      Inr ps \<Rightarrow> map (\<lambda>p. (w_id p, w_authorId p)) ps = [(2, Some 2), (1, Some 1)]
    | Inl e \<Rightarrow> False)"
proof -
  have a: "postFiltersSchema (noFilters\<lparr> f_authorId := Some 1 \<rparr>)"
    by (simp add: postFiltersSchema_def noFilters_def optional_def idSchema_def)
  have b: "getAll_conditions (noFilters\<lparr> f_authorId := Some 1 \<rparr>) = []"
    by (simp add: getAll_conditions_def noFilters_def)
  have c: "case getAll exampleDb (noFilters\<lparr> f_authorId := Some 1 \<rparr>) of
      Inr ps \<Rightarrow> map (\<lambda>p. (w_id p, w_authorId p)) ps = [(2, Some 2), (1, Some 1)]
    | Inl e \<Rightarrow> False"
    by code_simp
  show ?thesis using a b c by simp
qed

section \<open>The claims on the creation of posts and categories\<close>

lemma insert_postCategories_keeps:
  "posts (snd (insert_postCategories now vs s)) = posts s \<and>
   users (snd (insert_postCategories now vs s)) = users s \<and>
   categories (snd (insert_postCategories now vs s)) = categories s"
  by (simp add: insert_postCategories_def split: option.splits prod.splits sum.splits)

lemma insert_postCategories_posts:
  "insert_postCategories now vs s = (r, s') \<Longrightarrow> posts s' = posts s"
  using insert_postCategories_keeps[of now vs s] by simp

lemma insert_posts_ok:
  "insert_posts now title content slug published author s = (Inr rows, s1) \<Longrightarrow>
   \<exists>p. rows = [p] \<and> posts s1 = posts s @ [p] \<and> p_slug p = varchar 250 slug \<and>
       \<not> varcharTooLong 250 slug \<and> p_title p = varchar 200 title \<and>
       p_authorId p = author \<and> p_id p = posts_id_seq s + 1"
  by (auto simp: insert_posts_def Let_def split: if_splits option.splits)

lemma stored_slug:
  "\<not> varcharTooLong n (generateSlug t) \<Longrightarrow> varchar n (generateSlug t) = generateSlug t"
  by (rule varchar_unchanged[OF _ generateSlug_no_space])

lemma create_body_ok:
  assumes "create_body now input s = (Inr p, s')"
  shows "p_slug p = generateSlug (ci_title input) \<and> p_title p = varchar 200 (ci_title input) \<and>
         p \<in> set (posts s')"
proof -
  let ?published = "case ci_published input of None \<Rightarrow> False | Some b \<Rightarrow> b"
  let ?ins = "insert_posts now (ci_title input) (ci_content input) (generateSlug (ci_title input)) ?published 1 s"
  obtain r s1 where i: "?ins = (r, s1)" by (cases ?ins)
  show ?thesis
  proof (cases r)
    case (Inl e)
    with assms i show ?thesis by (simp add: create_body_def)
  next
    case (Inr rows)
    from insert_posts_ok[OF i[unfolded Inr]] obtain q
      where q: "rows = [q]" "posts s1 = posts s @ [q]" "p_slug q = generateSlug (ci_title input)"
        "p_title q = varchar 200 (ci_title input)"
      by (auto simp: stored_slug)
    have "p = q \<and> posts s' = posts s1"
      using assms i Inr q(1)
      by (auto simp: create_body_def Let_def split: if_splits prod.splits sum.splits
          dest: insert_postCategories_posts)
    with q show ?thesis by simp
  qed
qed

lemma create_part_008_body_ok:
  assumes "create_part_008_body c now input s = (Inr p, s')"
  shows "p_slug p = generateSlug (ci_title input) \<and> p_title p = varchar 200 (ci_title input) \<and>
         p \<in> set (posts s')"
proof -
  let ?published = "case ci_published input of None \<Rightarrow> False | Some b \<Rightarrow> b"
  obtain u s0 where e: "ensureUser c now s = (u, s0)" by (cases "ensureUser c now s")
  show ?thesis
  proof (cases u)
    case (Inl t)
    with assms e show ?thesis by (simp add: create_part_008_body_def)
  next
    case (Inr a)
    let ?ins = "insert_posts now (ci_title input) (ci_content input) (generateSlug (ci_title input)) ?published a s0"
    obtain r s1 where i: "?ins = (r, s1)" by (cases ?ins)
    show ?thesis
    proof (cases r)
      case (Inl err)
      with assms e Inr i show ?thesis by (simp add: create_part_008_body_def)
    next
      case rows: (Inr rows)
      from insert_posts_ok[OF i[unfolded rows]] obtain q
        where q: "rows = [q]" "posts s1 = posts s0 @ [q]" "p_slug q = generateSlug (ci_title input)"
          "p_title q = varchar 200 (ci_title input)"
        by (auto simp: stored_slug)
      have "p = q \<and> posts s' = posts s1"
        using assms e Inr i rows q(1)
        by (auto simp: create_part_008_body_def Let_def split: if_splits prod.splits sum.splits
            dest: insert_postCategories_posts)
      with q show ?thesis by simp
    qed
  qed
qed

lemma category_create_ok:
  assumes "category_create now input s = (Inr cat, s')"
  shows "c_slug cat = generateSlug (cc_name input) \<and> c_name cat = varchar 100 (cc_name input) \<and>
         cat \<in> set (categories s')"
  using assms
  by (auto simp: category_create_def insert_categories_def Let_def stored_slug
      split: if_splits prod.splits sum.splits list.splits option.splits)

text \<open>\<open>create\<close> of post.ts answers with three error codes only; \<open>CONFLICT\<close> is none of them.\<close>

lemma create_error_codes:
  assumes "fst (create c now input s) = Inl (TRPCError k m)"
  shows "k = UNAUTHORIZED \<or> k = BAD_REQUEST \<or> k = INTERNAL_SERVER_ERROR"
  using assms
  by (auto simp: create_def create_body_def protectedProcedure_def inputError_def Let_def
      split: option.splits if_splits prod.splits sum.splits list.splits)

text \<open>
  \<open>create\<close> of the second copy of the router: with user 1 in the store and a title the
  columns accept, a slug that a post already has is answered with \<open>CONFLICT\<close>, and a
  category the store does not have with the \<open>BAD_REQUEST\<close> of a missing related record.
\<close>

lemma ensureUser_present:
  "1 \<in> set (map u_id (users s)) \<Longrightarrow> ensureUser c now s = (Inr 1, s)"
proof -
  assume "1 \<in> set (map u_id (users s))"
  then have "filter (\<lambda>u. u_id u = 1) (users s) \<noteq> []" by (auto simp: filter_empty_conv)
  then show ?thesis by (simp add: ensureUser_def)
qed

lemma create_part_008_conflict:
  assumes "protectedProcedure c = None" and "createPostSchema input"
    and "1 \<in> set (map u_id (users s))"
    and "5 \<le> length (ci_title input)" and "length (ci_title input) \<le> 200"
    and "3 \<le> length (generateSlug (ci_title input))"
    and "generateSlug (ci_title input) \<in> set (map p_slug (posts s))"
    and "CHR 0x00 \<notin> set (ci_title input)" and "CHR 0x00 \<notin> set (ci_content input)"
  shows "fst (create_part_008 c now input s) =
           Inl (TRPCError CONFLICT
             ''Failed to create post: a post with the same slug already exists. Try changing the title.'')"
proof -
  have "length (generateSlug (ci_title input)) \<le> length (ci_title input)"
  proof -
    have r: "length (replaceNonAlnumRuns t) \<le> length t" for t
    proof (induction t rule: replaceNonAlnumRuns.induct)
      case 1
      then show ?case by simp
    next
      case (2 c cs)
      have "length (dropWhile (\<lambda>x. \<not> isLowerAlnum x) cs) \<le> length cs"
        by (rule length_dropWhile_le)
      with 2 show ?case by auto
    qed
    have st: "length (stripEdgeHyphens t) \<le> length t" for t
      by (cases t) (auto simp: stripEdgeHyphens_def Let_def)
    have tr: "length (trim t) \<le> length t" for t
    proof -
      have "length (trim t) \<le> length (dropWhile isWhiteSpace t)"
        unfolding trim_def length_rev
        by (metis length_dropWhile_le length_rev)
      also have "\<dots> \<le> length t" by (rule length_dropWhile_le)
      finally show ?thesis .
    qed
    have "length (generateSlug (ci_title input)) \<le> length (trim (toLowerCase (ci_title input)))"
      unfolding generateSlug_def using st r order_trans by blast
    also have "\<dots> \<le> length (toLowerCase (ci_title input))" by (rule tr)
    finally show ?thesis by (simp add: toLowerCase_def)
  qed
  with assms(5) have "length (generateSlug (ci_title input)) \<le> 250" by simp
  then have g: "varchar 250 (generateSlug (ci_title input)) = generateSlug (ci_title input)"
    "\<not> varcharTooLong 250 (generateSlug (ci_title input))"
    using varchar_short by blast+
  have t: "varchar 200 (ci_title input) = ci_title input" "\<not> varcharTooLong 200 (ci_title input)"
    using varchar_short[OF assms(5)] by blast+
  have e: "firstError [textParam (ci_title input), textParam (ci_content input), int4Param 1,
                       textParam (generateSlug (ci_title input))] = None"
    using assms(8,9) generateSlug_no_nul[of "ci_title input"]
    by (simp add: firstError_None int4_def)
  from assms(3-7) have
    "fst (insert_posts now (ci_title input) (ci_content input) (generateSlug (ci_title input))
            (case ci_published input of None \<Rightarrow> False | Some b \<Rightarrow> b) 1 s) = Inl (PgError ''23505'')"
    by (simp add: insert_posts_def e g t posts_check_violated_def posts_unique_violated_def)
  then show ?thesis
    using assms(1,2) ensureUser_present[OF assms(3), of c now]
    by (auto simp: create_part_008_def create_part_008_body_def create_catch_def Let_def
        split: prod.splits sum.splits)
qed

lemma create_part_008_on_example:
  "fst (create_part_008 signedIn 3000 (newPost ''Same Title'') exampleDb) =
     Inl (TRPCError CONFLICT
       ''Failed to create post: a post with the same slug already exists. Try changing the title.'') \<and>
   fst (create_part_008 signedIn 3000
          ((newPost ''Another Title'')\<lparr> ci_categoryIds := Some [4] \<rparr>) exampleDb) =
     Inl (TRPCError BAD_REQUEST
       ''Failed to create post: related record not found (author or category). Ensure your local DB has a matching user and categories.'')"
proof -
  have "fst (create_part_008 signedIn 3000 (newPost ''Same Title'') exampleDb) =
     Inl (TRPCError CONFLICT
       ''Failed to create post: a post with the same slug already exists. Try changing the title.'')"
    by code_simp
  moreover have "fst (create_part_008 signedIn 3000
          ((newPost ''Another Title'')\<lparr> ci_categoryIds := Some [4] \<rparr>) exampleDb) =
     Inl (TRPCError BAD_REQUEST
       ''Failed to create post: related record not found (author or category). Ensure your local DB has a matching user and categories.'')"
    by code_simp
  ultimately show ?thesis by simp
qed

text \<open>
  C4. \<open>create\<close> of src/server/api/routers/post.ts turns every error of its body into
  \<open>INTERNAL_SERVER_ERROR\<close>: on the example store a second post titled \<open>Same Title\<close>
  violates the unique index on the slug (SQLSTATE 23505), and in a store without user 1
  the author's foreign key fails (SQLSTATE 23503); both are answered with
  \<open>INTERNAL_SERVER_ERROR\<close>, \<open>Failed to create post\<close>, neither with a conflict nor with a
  missing-dependency error. (The \<open>catch\<close> of the second copy of the router maps the two
  SQLSTATEs, see \<open>create_part_008_conflict\<close>.)
\<close>

theorem create_collapses_errors:
  "generateSlug ''Same Title'' = p_slug secondPost \<and>
   fst (insert_posts 3000 ''Same Title'' ''Some content here'' (generateSlug ''Same Title'') False 1
          exampleDb) = Inl (PgError ''23505'') \<and>
   fst (create signedIn 3000 (newPost ''Same Title'') exampleDb) =
     Inl (TRPCError INTERNAL_SERVER_ERROR ''Failed to create post'') \<and>
   fst (insert_posts 3000 ''Another Title'' ''Some content here'' (generateSlug ''Another Title'') False 1
          (exampleDb\<lparr> users := [bob] \<rparr>)) = Inl (PgError ''23503'') \<and>
   fst (create signedIn 3000 (newPost ''Another Title'') (exampleDb\<lparr> users := [bob] \<rparr>)) =
     Inl (TRPCError INTERNAL_SERVER_ERROR ''Failed to create post'')"
proof -
  have a: "generateSlug ''Same Title'' = p_slug secondPost" by code_simp
  have b: "fst (insert_posts 3000 ''Same Title'' ''Some content here'' (generateSlug ''Same Title'') False 1
          exampleDb) = Inl (PgError ''23505'')" by code_simp
  have c: "fst (create signedIn 3000 (newPost ''Same Title'') exampleDb) =
     Inl (TRPCError INTERNAL_SERVER_ERROR ''Failed to create post'')" by code_simp
  have d: "fst (insert_posts 3000 ''Another Title'' ''Some content here'' (generateSlug ''Another Title'') False 1
          (exampleDb\<lparr> users := [bob] \<rparr>)) = Inl (PgError ''23503'')" by code_simp
  have e: "fst (create signedIn 3000 (newPost ''Another Title'') (exampleDb\<lparr> users := [bob] \<rparr>)) =
     Inl (TRPCError INTERNAL_SERVER_ERROR ''Failed to create post'')" by code_simp
  show ?thesis using a b c d e by simp
qed

text \<open>
  C8. \<open>generateSlug\<close> is the lower-cased text with its maximal runs of characters of
  \<open>[a-z0-9]\<close> joined by single hyphens (so every run of other characters between two
  such runs is one hyphen, and none stands at either end); \<open>Hello World!!\<close> gives
  \<open>hello-world\<close> and \<open>Tech & Science\<close> gives \<open>tech-science\<close>; the post that \<open>create\<close>
  returns (in either copy of the router) and the category that the category router's
  \<open>create\<close> returns are rows of the store whose slug is \<open>generateSlug\<close> of the title or
  name.
\<close>

theorem slug_derivation:
  "generateSlug str = joinHyphen (alnumRuns (toLowerCase str)) \<and>
   generateSlug ''Hello World!!'' = ''hello-world'' \<and>
   generateSlug ''Tech & Science'' = ''tech-science'' \<and>
   (create c now input s = (Inr p, s') \<longrightarrow>
      p_slug p = generateSlug (ci_title input) \<and> p \<in> set (posts s')) \<and>
   (create_part_008 c now input s = (Inr p2, s2) \<longrightarrow>
      p_slug p2 = generateSlug (ci_title input) \<and> p2 \<in> set (posts s2)) \<and>
   (category_create now cinput s = (Inr cat, s3) \<longrightarrow>
      c_slug cat = generateSlug (cc_name cinput) \<and> cat \<in> set (categories s3))"
proof -
  have a: "generateSlug ''Hello World!!'' = ''hello-world''" by code_simp
  have b: "generateSlug ''Tech & Science'' = ''tech-science''" by code_simp
  have c: "p_slug p = generateSlug (ci_title input) \<and> p \<in> set (posts s')"
    if "create c now input s = (Inr p, s')"
  proof -
    from that have "create_body now input s = (Inr p, s')"
      by (simp add: create_def split: option.splits if_splits)
    from create_body_ok[OF this] show ?thesis by simp
  qed
  have d: "p_slug p2 = generateSlug (ci_title input) \<and> p2 \<in> set (posts s2)"
    if "create_part_008 c now input s = (Inr p2, s2)"
  proof -
    from that have "create_part_008_body c now input s = (Inr p2, s2)"
      by (simp add: create_part_008_def split: option.splits if_splits)
    from create_part_008_body_ok[OF this] show ?thesis by simp
  qed
  have e: "c_slug cat = generateSlug (cc_name cinput) \<and> cat \<in> set (categories s3)"
    if "category_create now cinput s = (Inr cat, s3)"
    using category_create_ok[OF that] by simp
  show ?thesis using generateSlug_runs[of str] a b c d e by blast
qed

text \<open>
  On the example store: a post titled \<open>Hello World!!\<close> and a category named
  \<open>Tech & Science\<close> are created and stored with the slugs \<open>hello-world\<close> and
  \<open>tech-science\<close>.
\<close>

theorem slug_derivation_witness:
  "(case create signedIn 3000 (newPost ''Hello World!!'') exampleDb of
      (Inr p, s') \<Rightarrow> p_slug p = ''hello-world'' \<and> p \<in> set (posts s')
    | (Inl e, s') \<Rightarrow> False) \<and>
   (case create_part_008 signedIn 3000 (newPost ''Hello World!!'') exampleDb of
      (Inr p, s') \<Rightarrow> p_slug p = ''hello-world'' \<and> p \<in> set (posts s')
    | (Inl e, s') \<Rightarrow> False) \<and>
   (case category_create 3000 \<lparr> cc_name = ''Tech & Science'', cc_description = None \<rparr> exampleDb of
      (Inr cat, s') \<Rightarrow> c_slug cat = ''tech-science'' \<and> cat \<in> set (categories s')
    | (Inl e, s') \<Rightarrow> False)"
proof -
  have "case create signedIn 3000 (newPost ''Hello World!!'') exampleDb of
          (Inr p, s') \<Rightarrow> True | (Inl e, s') \<Rightarrow> False"
    by code_simp
  then obtain p s' where a: "create signedIn 3000 (newPost ''Hello World!!'') exampleDb = (Inr p, s')"
    by (auto split: prod.splits sum.splits)
  have "case create_part_008 signedIn 3000 (newPost ''Hello World!!'') exampleDb of
          (Inr p, s') \<Rightarrow> True | (Inl e, s') \<Rightarrow> False"
    by code_simp
  then obtain p2 s2 where b: "create_part_008 signedIn 3000 (newPost ''Hello World!!'') exampleDb = (Inr p2, s2)"
    by (auto split: prod.splits sum.splits)
  have "case category_create 3000 \<lparr> cc_name = ''Tech & Science'', cc_description = None \<rparr> exampleDb of
          (Inr cat, s') \<Rightarrow> True | (Inl e, s') \<Rightarrow> False"
    by code_simp
  then obtain cat s3
    where c: "category_create 3000 \<lparr> cc_name = ''Tech & Science'', cc_description = None \<rparr> exampleDb = (Inr cat, s3)"
    by (auto split: prod.splits sum.splits)
  have t: "ci_title (newPost ''Hello World!!'') = ''Hello World!!''" by (simp add: newPost_def)
  note sd = slug_derivation[of "''Hello World!!''" signedIn 3000 "newPost ''Hello World!!''" exampleDb p s' p2 s2
      "\<lparr> cc_name = ''Tech & Science'', cc_description = None \<rparr>" cat s3]
  from sd have g: "generateSlug ''Hello World!!'' = ''hello-world''"
    "generateSlug ''Tech & Science'' = ''tech-science''"
    by blast+
  from sd a have x: "p_slug p = generateSlug (ci_title (newPost ''Hello World!!''))" "p \<in> set (posts s')"
    by blast+
  from sd b have y: "p_slug p2 = generateSlug (ci_title (newPost ''Hello World!!''))" "p2 \<in> set (posts s2)"
    by blast+
  from sd c have z: "c_slug cat = generateSlug ''Tech & Science''" "cat \<in> set (categories s3)"
    by simp_all
  show ?thesis by (simp add: a b c x y z t g)
qed

section \<open>The query helper of src/lib/db-utils.ts\<close>

lemma map_set_values: "set (map_values (map_set m k v)) \<subseteq> insert v (set (map_values m))"
proof (induction m)
  case Nil
  then show ?case by (simp add: map_values_def)
next
  case (Cons a m)
  obtain k' v' where a: "a = (k', v')" by (cases a)
  show ?case using Cons unfolding a by (auto simp: map_values_def)
qed

lemma map_get_values: "map_get m k = Some v \<Longrightarrow> v \<in> set (map_values m)"
  unfolding map_get_def map_values_def by (drule map_of_SomeD) force

text \<open>A property of the grouped posts that the new record has and a push keeps.\<close>

lemma detailsStep_invariant:
  assumes m: "\<forall>v \<in> set (map_values m). Q v"
    and new: "Q (post.extend (dr_post row) (post_with_details.fields (dr_author row) []))"
    and push: "\<And>post c n. Q post \<Longrightarrow> dr_categoryId row = Some c \<Longrightarrow>
                 \<not> list_ex (\<lambda>x. pc_categoryId x = c) (d_postCategories post) \<Longrightarrow>
                 Q (post\<lparr> d_postCategories := d_postCategories post @
                      [categoryEntry now (p_id (dr_post row)) c n (dr_categorySlug row)] \<rparr>)"
  shows "\<forall>v \<in> set (map_values (detailsStep now m row)). Q v"
proof -
  define m1 where "m1 =
    (if \<not> map_has m (p_id (dr_post row))
     then map_set m (p_id (dr_post row))
            (post.extend (dr_post row) (post_with_details.fields (dr_author row) []))
     else m)"
  have m1: "\<forall>v \<in> set (map_values m1). Q v"
    using m new map_set_values[of m "p_id (dr_post row)"
        "post.extend (dr_post row) (post_with_details.fields (dr_author row) [])"]
    unfolding m1_def by auto
  have step: "detailsStep now m row =
    (case map_get m1 (p_id (dr_post row)) of
       None \<Rightarrow> m1
     | Some post \<Rightarrow>
         (case (dr_categoryId row, dr_categoryName row) of
            (Some categoryId, Some categoryName) \<Rightarrow>
              if categoryId \<noteq> 0 \<and> categoryName \<noteq> [] \<and>
                 \<not> list_ex (\<lambda>c. pc_categoryId c = categoryId) (d_postCategories post)
              then map_set m1 (p_id (dr_post row))
                     (post\<lparr> d_postCategories := d_postCategories post @
                        [categoryEntry now (p_id (dr_post row)) categoryId categoryName
                           (dr_categorySlug row)] \<rparr>)
              else m1
          | _ \<Rightarrow> m1))"
    unfolding detailsStep_def Let_def m1_def by (rule refl)
  show ?thesis
  proof (cases "map_get m1 (p_id (dr_post row))")
    case None
    then show ?thesis using m1 by (simp add: step)
  next
    case (Some post)
    have q: "Q post" using map_get_values[OF Some] m1 by blast
    show ?thesis
    proof (cases "dr_categoryId row")
      case None
      then show ?thesis using m1 Some by (simp add: step)
    next
      case c: (Some c)
      show ?thesis
      proof (cases "dr_categoryName row")
        case None
        then show ?thesis using m1 Some c by (simp add: step)
      next
        case n: (Some n)
        show ?thesis
        proof (cases "c \<noteq> 0 \<and> n \<noteq> [] \<and> \<not> list_ex (\<lambda>x. pc_categoryId x = c) (d_postCategories post)")
          case False
          then have "detailsStep now m row = m1" using Some c n by (auto simp: step)
          then show ?thesis using m1 by simp
        next
          case True
          let ?post' = "post\<lparr> d_postCategories := d_postCategories post @
                      [categoryEntry now (p_id (dr_post row)) c n (dr_categorySlug row)] \<rparr>"
          have e: "detailsStep now m row = map_set m1 (p_id (dr_post row)) ?post'"
            using True Some c n by (simp add: step)
          have "Q ?post'" using push[OF q c] True by blast
          then show ?thesis
            using m1 map_set_values[of m1 "p_id (dr_post row)" ?post'] unfolding e by auto
        qed
      qed
    qed
  qed
qed

lemma groupDetails_invariant:
  assumes new: "\<And>row. row \<in> set rows \<Longrightarrow>
                  Q (post.extend (dr_post row) (post_with_details.fields (dr_author row) []))"
    and push: "\<And>row post c n. row \<in> set rows \<Longrightarrow> Q post \<Longrightarrow> dr_categoryId row = Some c \<Longrightarrow>
                 \<not> list_ex (\<lambda>x. pc_categoryId x = c) (d_postCategories post) \<Longrightarrow>
                 Q (post\<lparr> d_postCategories := d_postCategories post @
                      [categoryEntry now (p_id (dr_post row)) c n (dr_categorySlug row)] \<rparr>)"
  shows "\<forall>v \<in> set (groupDetails now rows). Q v"
  using assms unfolding groupDetails_def
proof (induction rows rule: rev_induct)
  case Nil
  then show ?case by (simp add: map_values_def)
next
  case (snoc r rows)
  have ih: "\<forall>v \<in> set (map_values (foldl (detailsStep now) [] rows)). Q v"
    by (rule snoc.IH) (auto intro: snoc.prems)
  have "\<forall>v \<in> set (map_values (detailsStep now (foldl (detailsStep now) [] rows) r)). Q v"
    by (rule detailsStep_invariant[OF ih]) (auto intro: snoc.prems)
  then show ?case by simp
qed

text \<open>The helper gives a post each category once, whatever the rows.\<close>

lemma groupDetails_distinct_categories:
  "p \<in> set (groupDetails now rows) \<Longrightarrow> distinct (map pc_categoryId (d_postCategories p))"
proof -
  have "\<forall>v \<in> set (groupDetails now rows). distinct (map pc_categoryId (d_postCategories v))"
    by (rule groupDetails_invariant)
       (auto simp: post.defs post_with_details.defs categoryEntry_def list_ex_iff)
  then show "p \<in> set (groupDetails now rows) \<Longrightarrow> distinct (map pc_categoryId (d_postCategories p))"
    by blast
qed

text \<open>On three rows of one post, the third with the category of the first, it returns the
  categories 1 and 2.\<close>

lemma groupDetails_on_repeated_rows:
  "map (\<lambda>p. (p_id p, map pc_categoryId (d_postCategories p)))
     (groupDetails 0
        [selectDetails ((firstPost, Some (exampleJunction 1 1 1), Some tech), Some alice),
         selectDetails ((firstPost, Some (exampleJunction 2 1 2), Some science), Some alice),
         selectDetails ((firstPost, Some (exampleJunction 1 1 1), Some tech), Some alice)])
   = [(1, [1, 2])]"
  by code_simp

text \<open>The helper filters by author: a truthy \<open>authorId\<close> leaves the posts of that author.\<close>

lemma details_results_author:
  assumes "a_authorId args = Some a" and "a \<noteq> 0" and "row \<in> set (details_results args s)"
  shows "p_authorId (dr_post row) = a"
proof -
  obtain cs where cs: "details_conditions args = Eq_posts_authorId a # cs"
    using assms(1,2) by (simp add: details_conditions_def)
  have w: "whereOf (details_conditions args) = Some (And (Eq_posts_authorId a # cs))"
    by (simp add: whereOf_def cs)
  from assms(3) obtain jr uo where
    row: "row = selectDetails (jr, uo)" and h: "holds (And (Eq_posts_authorId a # cs)) jr"
    unfolding details_results_def w
    by (auto dest!: in_set_takeD in_set_dropD)
  obtain p jo co where jr: "jr = (p, jo, co)" by (cases jr)
  show ?thesis using h by (simp add: row jr selectDetails_def)
qed

lemma getPostsWithDetails_author:
  assumes "a_authorId args = Some a" and "a \<noteq> 0"
    and "getPostsWithDetails now args s = Inr ps" and "p \<in> set ps"
  shows "p_authorId p = a"
proof -
  have "\<forall>v \<in> set (groupDetails now (details_results args s)). p_authorId v = a"
    by (rule groupDetails_invariant)
       (auto simp: post.defs post_with_details.defs details_results_author[OF assms(1,2)])
  moreover have "ps = groupDetails now (details_results args s)"
    using assms(3)
    by (auto simp: getPostsWithDetails_def details_query_def split: sum.splits option.splits if_splits)
  ultimately show ?thesis using assms(4) by simp
qed

text \<open>On the example store, \<open>authorId = 1\<close> leaves the post of author 1.\<close>

lemma getPostsWithDetails_on_example:
  "(case getPostsWithDetails 0 (noArgs\<lparr> a_authorId := Some 1 \<rparr>) exampleDb of
      Inr ps \<Rightarrow>
        map (\<lambda>p. (p_id p, p_authorId p, map pc_categoryId (d_postCategories p))) ps = [(1, 1, [1, 2])]
    | Inl e \<Rightarrow> False)"
  by code_simp

section \<open>The join of a store with unique keys\<close>




















text \<open>
  A post in two categories, fetched by its slug on the example store, comes with those two
  categories.
\<close>

lemma getBySlug_on_example:
  "keysUnique exampleDb \<and>
   (case getBySlug exampleDb ''my-first-post'' of
      Inr (Some p) \<Rightarrow> (w_id p, map c_id (w_categories p)) = (1, [1, 2])
    | _ \<Rightarrow> False)"
proof -
  have a: "keysUnique exampleDb" by code_simp
  have b: "case getBySlug exampleDb ''my-first-post'' of
      Inr (Some p) \<Rightarrow> (w_id p, map c_id (w_categories p)) = (1, [1, 2])
    | _ \<Rightarrow> False" by code_simp
  show ?thesis using a b by simp
qed

section \<open>The procedures keep the keys unique\<close>

lemma insert_posts_keys:
  assumes "storeKeys s"
  shows "storeKeys (snd (insert_posts now title content slug published authorId s))"
proof -
  have fresh: "posts_id_seq s + 1 \<notin> set (map p_id (posts s))"
  proof
    assume "posts_id_seq s + 1 \<in> set (map p_id (posts s))"
    then obtain p where "p \<in> set (posts s)" and "p_id p = posts_id_seq s + 1" by auto
    moreover have "\<forall>p \<in> set (posts s). p_id p \<le> posts_id_seq s"
      using assms by (simp add: storeKeys_def list_all_iff)
    ultimately show False by force
  qed
  have le: "list_all (\<lambda>p. p_id p \<le> posts_id_seq s + 1) (posts s)"
    using assms by (auto simp: storeKeys_def list_all_iff)
  show ?thesis
    using assms fresh le
    by (simp add: insert_posts_def Let_def storeKeys_def keysUnique_def split: option.splits)
qed

lemma insert_categories_keys:
  assumes "storeKeys s"
  shows "storeKeys (snd (insert_categories now name description slug s))"
proof -
  have fresh: "categories_id_seq s + 1 \<notin> set (map c_id (categories s))"
  proof
    assume "categories_id_seq s + 1 \<in> set (map c_id (categories s))"
    then obtain c where "c \<in> set (categories s)" and "c_id c = categories_id_seq s + 1" by auto
    moreover have "\<forall>c \<in> set (categories s). c_id c \<le> categories_id_seq s"
      using assms by (simp add: storeKeys_def list_all_iff)
    ultimately show False by force
  qed
  have le: "list_all (\<lambda>c. c_id c \<le> categories_id_seq s + 1) (categories s)"
    using assms by (auto simp: storeKeys_def list_all_iff)
  show ?thesis
    using assms fresh le
    by (simp add: insert_categories_def Let_def storeKeys_def keysUnique_def split: option.splits)
qed

lemma insert_postCategories_keys:
  assumes "storeKeys s"
  shows "storeKeys (snd (insert_postCategories now vs s))"
proof (cases "junctionAccepted vs s")
  case True
  from insert_postCategories_ok[OF True, of now] obtain rows sq where
    e: "insert_postCategories now vs s =
          (Inr rows, s\<lparr> post_categories_id_seq := sq, postCategories := postCategories s @ rows \<rparr>)"
    and m: "map pairOf rows = vs"
    by blast
  have "distinct vs" and "set vs \<inter> set (map pairOf (postCategories s)) = {}"
    using True by (simp_all add: junctionAccepted_def)
  then have "distinct (map pairOf (postCategories s) @ map pairOf rows)"
    using assms unfolding m by (auto simp: storeKeys_def keysUnique_def)
  then show ?thesis
    using assms by (simp add: e storeKeys_def keysUnique_def)
next
  case False
  from insert_postCategories_fail[OF False, of now] obtain err sq where
    "insert_postCategories now vs s = (Inl err, s\<lparr> post_categories_id_seq := sq \<rparr>)"
    by blast
  then show ?thesis using assms by (simp add: storeKeys_def keysUnique_def)
qed

lemma create_body_keys:
  assumes "storeKeys s"
  shows "storeKeys (snd (create_body now input s))"
proof -
  let ?ins = "insert_posts now (ci_title input) (ci_content input) (generateSlug (ci_title input))
      (case ci_published input of None \<Rightarrow> False | Some b \<Rightarrow> b) 1 s"
  obtain r s1 where i: "?ins = (r, s1)" by (cases ?ins)
  have k1: "storeKeys s1" using insert_posts_keys[OF assms, of now "ci_title input" "ci_content input"
        "generateSlug (ci_title input)" "case ci_published input of None \<Rightarrow> False | Some b \<Rightarrow> b" 1]
    by (simp add: i)
  have k2: "\<And>vs. storeKeys (snd (insert_postCategories now vs s1))"
    by (rule insert_postCategories_keys[OF k1])
  show ?thesis
  proof (cases r)
    case (Inl e)
    then show ?thesis using k1 by (simp add: create_body_def Let_def i)
  next
    case (Inr ps)
    show ?thesis
    proof (cases ps)
      case Nil
      then show ?thesis using k1 Inr by (simp add: create_body_def Let_def i)
    next
      case (Cons q qs)
      let ?vs = "junctionValues (p_id q) (case ci_categoryIds input of None \<Rightarrow> [] | Some cs \<Rightarrow> cs)"
      obtain r2 s2 where j: "insert_postCategories now ?vs s1 = (r2, s2)"
        by (cases "insert_postCategories now ?vs s1")
      have "storeKeys s2" using k2[of ?vs] by (simp add: j)
      then show ?thesis
        using k1 Inr Cons j by (cases r2) (simp_all add: create_body_def Let_def i)
    qed
  qed
qed

lemma category_create_keys:
  assumes "storeKeys s"
  shows "storeKeys (snd (category_create now input s))"
proof (cases "createCategorySchema input")
  case False
  then show ?thesis using assms by (simp add: category_create_def)
next
  case True
  let ?ins = "insert_categories now (cc_name input) (cc_description input) (generateSlug (cc_name input)) s"
  obtain r s1 where i: "?ins = (r, s1)" by (cases ?ins)
  have k1: "storeKeys s1"
    using insert_categories_keys[OF assms, of now "cc_name input" "cc_description input"
        "generateSlug (cc_name input)"]
    by (simp add: i)
  show ?thesis
    using k1 True by (simp add: category_create_def Let_def i split: sum.splits list.splits)
qed

lemma delete_body_keys:
  assumes "storeKeys s"
  shows "storeKeys (snd (delete_body i s))"
proof (cases "int4 i")
  case False
  then show ?thesis using assms by (simp add: delete_body_def delete_posts_def int4Param_def)
next
  case True
  let ?deleted = "filter (\<lambda>p. p_id p = i) (posts s)"
  let ?s1 = "s\<lparr> posts := filter (\<lambda>p. p_id p \<noteq> i) (posts s),
               postCategories := filter (\<lambda>j. pc_postId j \<notin> set (map p_id ?deleted)) (postCategories s) \<rparr>"
  have "storeKeys ?s1"
    using assms by (simp add: storeKeys_def keysUnique_def distinct_map_filter list_all_iff)
  moreover have "snd (delete_body i s) = ?s1"
    using True by (simp add: delete_body_def delete_posts_def int4Param_def Let_def split: list.splits)
  ultimately show ?thesis by simp
qed

lemma postsAfter_bound:
  assumes "storeKeys s"
  shows "list_all (\<lambda>p. p_id p \<le> posts_id_seq s) (postsAfter v i s)"
proof -
  have "\<forall>k \<in> set (map p_id (posts s)). k \<le> posts_id_seq s"
    using assms by (auto simp: storeKeys_def list_all_iff)
  then have "\<forall>k \<in> set (map p_id (postsAfter v i s)). k \<le> posts_id_seq s"
    by (simp only: postsAfter_ids)
  then show ?thesis by (simp add: list_all_iff)
qed

lemma storeKeys_posts:
  assumes "storeKeys s"
  shows "storeKeys (s\<lparr> posts := postsAfter v i s \<rparr>)"
proof -
  have a: "keysUnique (s\<lparr> posts := postsAfter v i s \<rparr>)"
    using assms by (simp add: storeKeys_def keysUnique_def postsAfter_ids)
  have b: "list_all (\<lambda>c. c_id c \<le> categories_id_seq s) (categories s)"
    using assms by (simp add: storeKeys_def)
  show ?thesis
    unfolding storeKeys_def using a b postsAfter_bound[OF assms, of v i] by simp
qed

lemma storeKeys_junction:
  assumes "storeKeys s" and "distinct (map pairOf rows)"
  shows "storeKeys (s\<lparr> postCategories := rows, post_categories_id_seq := sq \<rparr>)"
  using assms unfolding storeKeys_def keysUnique_def by simp

lemma update_body_keys:
  assumes "storeKeys s"
  shows "storeKeys (snd (update_body now input s))"
proof (cases now input s rule: update_body_cases)
  case rejected
  show ?thesis unfolding rejected(2) snd_conv by (rule assms)
next
  case not_found
  show ?thesis unfolding not_found(3) snd_conv by (rule assms)
next
  case (plain p)
  show ?thesis unfolding plain(4) snd_conv by (rule storeKeys_posts[OF assms])
next
  case (replaced cs res sq rows)
  let ?i = "ui_id input"
  let ?kept = "filter (\<lambda>j. pc_postId j \<noteq> ?i) (postCategories s)"
  have kept: "distinct (map pairOf ?kept)"
    using assms by (simp add: storeKeys_def keysUnique_def distinct_map_filter)
  have rows: "distinct (map pairOf rows) \<and> (\<forall>y \<in> set (map pairOf rows). fst y = ?i)"
  proof (cases "namesCategories cs s")
    case True
    then have m: "map pairOf rows = junctionValues ?i cs" using replaced(5) by simp
    have "distinct (junctionValues ?i cs)"
      using True by (simp add: namesCategories_def junctionValues_def distinct_map inj_on_def)
    moreover have "\<forall>y \<in> set (junctionValues ?i cs). fst y = ?i"
      by (simp add: junctionValues_def)
    ultimately show ?thesis by (simp only: m simp_thms)
  next
    case False
    then have "rows = []" using replaced(5) by simp
    then show ?thesis by simp
  qed
  have kf: "\<forall>y \<in> set (map pairOf ?kept). fst y \<noteq> ?i"
    by (simp add: pairOf_def)
  have "set (map pairOf ?kept) \<inter> set (map pairOf rows) = {}"
    using kf rows by blast
  then have d: "distinct (map pairOf (?kept @ rows))"
    using kept rows by (simp only: map_append distinct_append simp_thms)
  have k: "storeKeys (s\<lparr> posts := postsAfter (update_payload now input) ?i s \<rparr>
                    \<lparr> postCategories := ?kept @ rows, post_categories_id_seq := sq \<rparr>)"
    by (rule storeKeys_junction[OF storeKeys_posts[OF assms] d])
  show ?thesis unfolding replaced(4) snd_conv by (rule k)
qed

text \<open>The example store has unique keys.\<close>

lemma storeKeys_exampleDb: "storeKeys exampleDb"
  by code_simp

section \<open>The claim on the result shape-transformer\<close>





end
